theory Spec2Isabelle
  imports Complex_Main
begin

section \<open>The platform under the engine\<close>

text \<open>
  The engine of \<^verbatim>\<open>src/frontend/js/audio.js\<close> (class \<^verbatim>\<open>WerewolfPolyphonicAudio\<close>)
  talks to three things it does not own: the audio device (an \<^verbatim>\<open>AudioContext\<close> and the
  nodes it creates), the timer table of the page (\<^verbatim>\<open>setInterval\<close>/\<^verbatim>\<open>clearInterval\<close>)
  and \<^verbatim>\<open>Math.random\<close>. They are modelled as explicit state:
  \<^item> every call the engine makes on the device is appended to a log (\<open>calls\<close>), with the
    arguments the code passes; nodes are numbered in creation order;
  \<^item> the timer table is the list of live intervals, each with its handle, its callback and
    the period in milliseconds that the code passed; handles are positive integers, as the
    HTML standard says;
  \<^item> \<^verbatim>\<open>Math.random()\<close> reads the next element of a fixed sequence \<open>rng\<close>.
  JavaScript numbers are taken as real numbers. \<^verbatim>\<open>console.log\<close> and
  \<^verbatim>\<open>console.warn\<close> are left out.
\<close>

datatype waveform = Sine | Triangle | Square | Sawtooth

datatype filter_type = Lowpass

datatype node = Destination | Node nat

datatype param = GainParam | FrequencyParam

datatype device_call =
    CreateGain node
  | CreateOscillator node
  | CreateBuffer nat real real
  | CreateBufferSource node
  | CreateBiquadFilter node
  | SetOscType node waveform
  | SetFilterType node filter_type
  | SetFrequencyValue node real
  | SetGainValue node real
  | SetBuffer node "real list"
  | SetValueAtTime node param real real
  | LinearRampToValueAtTime node param real real
  | ExponentialRampToValueAtTime node param real real
  | Connect node node
  | Start node
  | Stop node real

datatype audio_context = AudioContext (sampleRate: real)

datatype callback = PlayDrone | PlayMelodyNote int | WindTick | CreakTick

datatype error = AudioUnavailable | TypeError

record volumes =
  masterVolume :: real
  musicVolume :: real
  sfxVolume :: real

record engine =
  audioContext :: "audio_context option"
  masterGain :: "node option"
  musicGain :: "node option"
  sfxGain :: "node option"
  isEnabled :: bool
  isMusicPlaying :: bool
  musicInterval :: "nat option"
  ambientIntervals :: "nat list"
  config :: volumes

record world =
  eng :: engine
  timers :: "(nat \<times> callback \<times> real) list"
  lastHandle :: nat
  calls :: "device_call list"
  nodes :: nat
  rng :: "nat \<Rightarrow> real"
  drawn :: nat
  currentTime :: real
  contextAvailable :: bool
  deviceSampleRate :: real
  clickListener :: bool
  keydownListener :: bool

record page =
  pageRandom :: "nat \<Rightarrow> real"
  pageTime :: real
  pageAudio :: bool
  pageSampleRate :: real
  pageHandles :: nat

text \<open>
  A call either returns or throws; in both cases the state it has reached is kept, since
  JavaScript does not undo the assignments made before a \<^verbatim>\<open>throw\<close>.
\<close>

datatype outcome = Returned world | Thrown error world

fun world_of :: "outcome \<Rightarrow> world" where
  "world_of (Returned w) = w"
| "world_of (Thrown e w) = w"

fun throws :: "outcome \<Rightarrow> bool" where
  "throws (Returned w) = False"
| "throws (Thrown e w) = True"

fun and_then :: "outcome \<Rightarrow> (world \<Rightarrow> outcome) \<Rightarrow> outcome" where
  "and_then (Returned w) f = f w"
| "and_then (Thrown e w) f = Thrown e w"

fun map_outcome :: "(world \<Rightarrow> world) \<Rightarrow> outcome \<Rightarrow> outcome" where
  "map_outcome f (Returned w) = Returned (f w)"
| "map_outcome f (Thrown e w) = Thrown e (f w)"

definition call :: "device_call \<Rightarrow> world \<Rightarrow> world" where
  "call c w = w\<lparr>calls := calls w @ [c]\<rparr>"

definition newNode :: "world \<Rightarrow> node \<times> world" where
  "newNode w = (Node (nodes w), w\<lparr>nodes := Suc (nodes w)\<rparr>)"

definition createGain :: "world \<Rightarrow> node \<times> world" where
  "createGain w = (let (n, w1) = newNode w in (n, call (CreateGain n) w1))"

definition createOscillator :: "world \<Rightarrow> node \<times> world" where
  "createOscillator w = (let (n, w1) = newNode w in (n, call (CreateOscillator n) w1))"

definition createBufferSource :: "world \<Rightarrow> node \<times> world" where
  "createBufferSource w = (let (n, w1) = newNode w in (n, call (CreateBufferSource n) w1))"

definition createBiquadFilter :: "world \<Rightarrow> node \<times> world" where
  "createBiquadFilter w = (let (n, w1) = newNode w in (n, call (CreateBiquadFilter n) w1))"

definition mathRandom :: "world \<Rightarrow> real \<times> world" where
  "mathRandom w = (rng w (drawn w), w\<lparr>drawn := Suc (drawn w)\<rparr>)"

definition setInterval :: "callback \<Rightarrow> real \<Rightarrow> world \<Rightarrow> nat \<times> world" where
  "setInterval cb ms w =
     (let h = Suc (lastHandle w)
      in (h, w\<lparr>timers := timers w @ [(h, cb, ms)], lastHandle := h\<rparr>))"

definition clearInterval :: "nat \<Rightarrow> world \<Rightarrow> world" where
  "clearInterval h w = w\<lparr>timers := filter (\<lambda>t. fst t \<noteq> h) (timers w)\<rparr>"

text \<open>\<^verbatim>\<open>a || b\<close> on two possibly-null object references.\<close>

definition orElse :: "'a option \<Rightarrow> 'a option \<Rightarrow> 'a option" where
  "orElse a b = (case a of Some x \<Rightarrow> Some x | None \<Rightarrow> b)"

section \<open>The engine\<close>

definition minor :: "int list" where
  "minor = [0, 2, 3, 5, 7, 8, 10]"

definition phrygian :: "int list" where
  "phrygian = [0, 1, 3, 5, 7, 8, 10]"

definition locrian :: "int list" where
  "locrian = [0, 1, 3, 5, 6, 8, 10]"

definition harmonicMinor :: "int list" where
  "harmonicMinor = [0, 2, 3, 5, 7, 8, 11]"

definition baseFreq :: real where
  "baseFreq = 73.42"

text \<open>
  The constructor (lines 2-31) and \<^verbatim>\<open>init\<close> (lines 33-37): the fields, and the two
  one-shot listeners for the first click and the first key press.
\<close>

definition constructor :: "page \<Rightarrow> world" where
  "constructor p =
     \<lparr>eng = \<lparr>audioContext = None, masterGain = None, musicGain = None, sfxGain = None,
             isEnabled = True, isMusicPlaying = False, musicInterval = None,
             ambientIntervals = [],
             config = \<lparr>masterVolume = 0.4, musicVolume = 0.15, sfxVolume = 0.3\<rparr>\<rparr>,
      timers = [], lastHandle = pageHandles p, calls = [], nodes = 0,
      rng = pageRandom p, drawn = 0, currentTime = pageTime p,
      contextAvailable = pageAudio p, deviceSampleRate = pageSampleRate p,
      clickListener = True, keydownListener = True\<rparr>"

text \<open>
  \<^verbatim>\<open>playNote\<close> (lines 180-197). The three defaulted parameters are options.
  \<^verbatim>\<open>gain.connect(destination || this.masterGain)\<close> throws a TypeError when both are
  null; the calls made before it stay in the log.
\<close>

definition playNote ::
  "real \<Rightarrow> real \<Rightarrow> waveform option \<Rightarrow> real option \<Rightarrow> node option \<Rightarrow> world \<Rightarrow> outcome" where
  "playNote freq duration type volume destination w =
     (case audioContext (eng w) of
        None \<Rightarrow> Returned w
      | Some ctx \<Rightarrow>
          let (osc, w1) = createOscillator w;
              (gain, w2) = createGain w1;
              w3 = call (SetOscType osc (case type of None \<Rightarrow> Sine | Some t \<Rightarrow> t)) w2;
              w4 = call (SetFrequencyValue osc freq) w3;
              w5 = call (SetValueAtTime gain GainParam
                     (case volume of None \<Rightarrow> 0.1 | Some v \<Rightarrow> v) (currentTime w4)) w4;
              w6 = call (ExponentialRampToValueAtTime gain GainParam 0.001
                     (currentTime w5 + duration)) w5;
              w7 = call (Connect osc gain) w6
          in (case orElse destination (masterGain (eng w7)) of
                None \<Rightarrow> Thrown TypeError w7
              | Some d \<Rightarrow>
                  let w8 = call (Connect gain d) w7;
                      w9 = call (Start osc) w8
                  in Returned (call (Stop osc (currentTime w9 + duration)) w9)))"

text \<open>
  The sample loop of \<^verbatim>\<open>playFilteredNoise\<close> (lines 206-208). \<open>data\<close> is the
  \<^verbatim>\<open>Float32Array\<close> of the buffer: a write past its end is dropped, which is what
  list update does, while \<^verbatim>\<open>Math.random()\<close> is still called.
\<close>

function fillNoise :: "nat \<Rightarrow> real \<Rightarrow> real list \<Rightarrow> world \<Rightarrow> real list \<times> world" where
  "fillNoise i bufferSize data w =
     (if real i < bufferSize
      then (let (r, w1) = mathRandom w
            in fillNoise (Suc i) bufferSize (data[i := r * 2 - 1]) w1)
      else (data, w))"
  by pat_completeness auto
termination
proof (relation "measure (\<lambda>(i, bufferSize, data, w). nat \<lceil>bufferSize\<rceil> - i)")
  show "wf (measure (\<lambda>(i, bufferSize, data, w). nat \<lceil>bufferSize\<rceil> - i))"
    by simp
next
  fix i :: nat and bufferSize :: real and data :: "real list" and w y :: world and x :: real
  assume less: "real i < bufferSize"
  have "bufferSize \<le> real_of_int \<lceil>bufferSize\<rceil>"
    by (rule le_of_int_ceiling)
  with less have "int i < \<lceil>bufferSize\<rceil>"
    by linarith
  then have "i < nat \<lceil>bufferSize\<rceil>"
    by simp
  then show "((Suc i, bufferSize, data[i := x * 2 - 1], y), (i, bufferSize, data, w))
      \<in> measure (\<lambda>(i, bufferSize, data, w). nat \<lceil>bufferSize\<rceil> - i)"
    by simp
qed

text \<open>
  \<^verbatim>\<open>playFilteredNoise\<close> (lines 199-226). \<^verbatim>\<open>createBuffer\<close> is logged with the
  length the code passes, \<open>sampleRate * duration\<close>; the array it hands out has the
  integer part of that many samples.
\<close>

definition playFilteredNoise ::
  "real \<Rightarrow> real \<Rightarrow> real \<Rightarrow> node option \<Rightarrow> world \<Rightarrow> outcome" where
  "playFilteredNoise duration cutoff volume destination w =
     (case audioContext (eng w) of
        None \<Rightarrow> Returned w
      | Some ctx \<Rightarrow>
          let bufferSize = sampleRate ctx * duration;
              w1 = call (CreateBuffer 1 bufferSize (sampleRate ctx)) w;
              (data, w2) = fillNoise 0 bufferSize (replicate (nat \<lfloor>bufferSize\<rfloor>) 0) w1;
              (noise, w3) = createBufferSource w2;
              w4 = call (SetBuffer noise data) w3;
              (filter, w5) = createBiquadFilter w4;
              w6 = call (SetFilterType filter Lowpass) w5;
              w7 = call (SetFrequencyValue filter cutoff) w6;
              (gain, w8) = createGain w7;
              w9 = call (SetValueAtTime gain GainParam volume (currentTime w8)) w8;
              w10 = call (LinearRampToValueAtTime gain GainParam 0
                      (currentTime w9 + duration)) w9;
              w11 = call (Connect noise filter) w10;
              w12 = call (Connect filter gain) w11
          in (case orElse destination (masterGain (eng w12)) of
                None \<Rightarrow> Thrown TypeError w12
              | Some d \<Rightarrow> Returned (call (Start noise) (call (Connect gain d) w12))))"

text \<open>\<^verbatim>\<open>playCreak\<close> (lines 228-241); \<^verbatim>\<open>gain.connect(this.musicGain)\<close> has no fallback.\<close>

definition playCreak :: "world \<Rightarrow> outcome" where
  "playCreak w =
     (case audioContext (eng w) of
        None \<Rightarrow> Returned w
      | Some ctx \<Rightarrow>
          let (osc, w1) = createOscillator w;
              (gain, w2) = createGain w1;
              w3 = call (SetOscType osc Sawtooth) w2;
              (r1, w4) = mathRandom w3;
              w5 = call (SetValueAtTime osc FrequencyParam (100 + r1 * 50) (currentTime w4)) w4;
              (r2, w6) = mathRandom w5;
              w7 = call (LinearRampToValueAtTime osc FrequencyParam (60 + r2 * 30)
                     (currentTime w6 + 0.3)) w6;
              w8 = call (SetValueAtTime gain GainParam 0.03 (currentTime w7)) w7;
              w9 = call (ExponentialRampToValueAtTime gain GainParam 0.001
                     (currentTime w8 + 0.3)) w8;
              w10 = call (Connect osc gain) w9
          in (case musicGain (eng w10) of
                None \<Rightarrow> Thrown TypeError w10
              | Some d \<Rightarrow>
                  let w11 = call (Connect gain d) w10;
                      w12 = call (Start osc) w11
                  in Returned (call (Stop osc (currentTime w12 + 0.3)) w12)))"

definition playWind :: "real \<Rightarrow> world \<Rightarrow> outcome" where
  "playWind duration w = playFilteredNoise duration 300 0.05 (musicGain (eng w)) w"

definition playHover :: "world \<Rightarrow> outcome" where
  "playHover w = playNote 880 0.03 (Some Square) (Some 0.02) (sfxGain (eng w)) w"

definition playClick :: "world \<Rightarrow> outcome" where
  "playClick w = playNote 440 0.05 (Some Square) (Some 0.05) (sfxGain (eng w)) w"

text \<open>The closure \<^verbatim>\<open>playDrone\<close> of \<^verbatim>\<open>startDrone\<close> (lines 109-119).\<close>

definition playDrone :: "world \<Rightarrow> outcome" where
  "playDrone w =
     and_then (playNote baseFreq 8 (Some Sine) (Some 0.04) (musicGain (eng w)) w) (\<lambda>w1.
     and_then (playNote (baseFreq * 1.5) 8 (Some Sine) (Some 0.025) (musicGain (eng w1)) w1) (\<lambda>w2.
     and_then (playNote (baseFreq * 2) 8 (Some Triangle) (Some 0.015) (musicGain (eng w2)) w2) (\<lambda>w3.
     playFilteredNoise 8 100 0.02 (musicGain (eng w3)) w3)))"

definition startDrone :: "world \<Rightarrow> outcome" where
  "startDrone w =
     (if audioContext (eng w) = None then Returned w
      else and_then (playDrone w) (\<lambda>w1.
             let (h, w2) = setInterval PlayDrone 7500 w1
             in Returned (w2\<lparr>eng := (eng w2)\<lparr>ambientIntervals := ambientIntervals (eng w2) @ [h]\<rparr>\<rparr>)))"

text \<open>
  Line 137 of \<^verbatim>\<open>playMelodyNote\<close>: the new value of \<^verbatim>\<open>lastNoteIndex\<close>.
\<close>

definition advance :: "int list \<Rightarrow> int \<Rightarrow> int \<Rightarrow> int \<Rightarrow> int" where
  "advance scale lastNoteIndex direction step =
     max 0 (min (int (length scale) - 1) (lastNoteIndex + direction * step))"

text \<open>
  The closure \<^verbatim>\<open>playMelodyNote\<close> of \<^verbatim>\<open>startMelody\<close> (lines 131-153), over
  \<^verbatim>\<open>scale = this.scales.phrygian\<close>. Its variable \<^verbatim>\<open>lastNoteIndex\<close> is passed in and
  handed back.
\<close>

definition playMelodyNote :: "int \<Rightarrow> world \<Rightarrow> int \<times> outcome" where
  "playMelodyNote lastNoteIndex w =
     (if \<not> isMusicPlaying (eng w) then (lastNoteIndex, Returned w)
      else
        let scale = phrygian;
            (r1, w1) = mathRandom w;
            direction = (if r1 > 0.5 then 1 else - 1);
            (r2, w2) = mathRandom w1;
            step = \<lfloor>r2 * 3\<rfloor>;
            lastNoteIndex' = advance scale lastNoteIndex direction step;
            semitone = scale ! nat lastNoteIndex';
            (r3, w3) = mathRandom w2;
            octave = 2 + \<lfloor>r3 * 2\<rfloor>;
            freq = baseFreq * 2 powr real_of_int octave * 2 powr (real_of_int semitone / 12);
            (r4, w4) = mathRandom w3
        in (lastNoteIndex',
            and_then (playNote freq (2 + r4 * 2) (Some Triangle) (Some 0.03) (musicGain (eng w4)) w4)
              (\<lambda>w5.
                 let (r5, w6) = mathRandom w5
                 in if r5 > 0.6
                    then
                      let harmonyIndex = (lastNoteIndex' + 2) mod int (length scale);
                          harmonySemitone = scale ! nat harmonyIndex;
                          harmonyFreq = baseFreq * 2 powr real_of_int octave
                                          * 2 powr (real_of_int harmonySemitone / 12)
                      in playNote harmonyFreq 1.5 (Some Sine) (Some 0.02) (musicGain (eng w6)) w6
                    else Returned w6)))"

definition startMelody :: "world \<Rightarrow> outcome" where
  "startMelody w =
     (if audioContext (eng w) = None then Returned w
      else
        let (r, w1) = mathRandom w;
            (h, w2) = setInterval (PlayMelodyNote 0) (3000 + r * 4000) w1
        in Returned (w2\<lparr>eng := (eng w2)\<lparr>musicInterval := Some h\<rparr>\<rparr>))"

text \<open>The two anonymous callbacks of \<^verbatim>\<open>startAmbientEffects\<close> (lines 162-166, 170-174).\<close>

definition windTick :: "world \<Rightarrow> outcome" where
  "windTick w =
     (let (r, w1) = mathRandom w
      in if r > 0.7 \<and> isMusicPlaying (eng w1)
         then (let (r', w2) = mathRandom w1 in playWind (4 + r' * 3) w2)
         else Returned w1)"

definition creakTick :: "world \<Rightarrow> outcome" where
  "creakTick w =
     (let (r, w1) = mathRandom w
      in if r > 0.8 \<and> isMusicPlaying (eng w1) then playCreak w1 else Returned w1)"

definition startAmbientEffects :: "world \<Rightarrow> outcome" where
  "startAmbientEffects w =
     (if audioContext (eng w) = None then Returned w
      else
        let (windInterval, w1) = setInterval WindTick 8000 w;
            w2 = w1\<lparr>eng := (eng w1)\<lparr>ambientIntervals := ambientIntervals (eng w1) @ [windInterval]\<rparr>\<rparr>;
            (creakInterval, w3) = setInterval CreakTick 12000 w2
        in Returned (w3\<lparr>eng := (eng w3)\<lparr>ambientIntervals := ambientIntervals (eng w3) @ [creakInterval]\<rparr>\<rparr>))"

definition startBackgroundMusic :: "world \<Rightarrow> outcome" where
  "startBackgroundMusic w =
     (if isMusicPlaying (eng w) \<or> audioContext (eng w) = None then Returned w
      else
        let w1 = w\<lparr>eng := (eng w)\<lparr>isMusicPlaying := True\<rparr>\<rparr>
        in and_then (startDrone w1) (\<lambda>w2. and_then (startMelody w2) startAmbientEffects))"

text \<open>
  \<^verbatim>\<open>stopBackgroundMusic\<close> (lines 90-103). \<^verbatim>\<open>if (this.musicInterval)\<close> is false for
  \<^verbatim>\<open>null\<close> and for the number 0.
\<close>

definition stopBackgroundMusic :: "world \<Rightarrow> outcome" where
  "stopBackgroundMusic w =
     (let w1 = w\<lparr>eng := (eng w)\<lparr>isMusicPlaying := False\<rparr>\<rparr>;
          w2 = fold clearInterval (ambientIntervals (eng w1)) w1;
          w3 = w2\<lparr>eng := (eng w2)\<lparr>ambientIntervals := []\<rparr>\<rparr>
      in (case musicInterval (eng w3) of
            None \<Rightarrow> Returned w3
          | Some h \<Rightarrow>
              if h \<noteq> 0
              then (let w4 = clearInterval h w3
                    in Returned (w4\<lparr>eng := (eng w4)\<lparr>musicInterval := None\<rparr>\<rparr>))
              else Returned w3))"

text \<open>
  \<^verbatim>\<open>initAudioContext\<close> (lines 39-68). \<^verbatim>\<open>new AudioContext()\<close> throws when the
  platform has no audio; the assignment to \<^verbatim>\<open>this.audioContext\<close> then does not happen.
  The \<^verbatim>\<open>catch\<close> absorbs whatever the body throws.
\<close>

definition initAudioContextBody :: "world \<Rightarrow> outcome" where
  "initAudioContextBody w =
     (if \<not> contextAvailable w then Thrown AudioUnavailable w
      else
        let w1 = w\<lparr>eng := (eng w)\<lparr>audioContext := Some (AudioContext (deviceSampleRate w))\<rparr>\<rparr>;
            (master, w2) = createGain w1;
            w3 = w2\<lparr>eng := (eng w2)\<lparr>masterGain := Some master\<rparr>\<rparr>;
            w4 = call (SetGainValue master (masterVolume (config (eng w3)))) w3;
            w5 = call (Connect master Destination) w4;
            (music, w6) = createGain w5;
            w7 = w6\<lparr>eng := (eng w6)\<lparr>musicGain := Some music\<rparr>\<rparr>;
            w8 = call (SetGainValue music (musicVolume (config (eng w7)))) w7;
            w9 = call (Connect music master) w8;
            (sfx, w10) = createGain w9;
            w11 = w10\<lparr>eng := (eng w10)\<lparr>sfxGain := Some sfx\<rparr>\<rparr>;
            w12 = call (SetGainValue sfx (sfxVolume (config (eng w11)))) w11;
            w13 = call (Connect sfx master) w12
        in startBackgroundMusic w13)"

definition initAudioContext :: "world \<Rightarrow> outcome" where
  "initAudioContext w =
     (if audioContext (eng w) \<noteq> None then Returned w
      else Returned (world_of (initAudioContextBody w)))"

section \<open>What the page does to the engine\<close>

text \<open>
  A timer that fires runs its callback, if the interval is still in the table. The
  closure variable of the melody callback lives in the table entry. What a callback throws
  goes to the page's error handler; the interval stays in the table.
\<close>

fun runCallback :: "callback \<Rightarrow> world \<Rightarrow> callback \<times> outcome" where
  "runCallback PlayDrone w = (PlayDrone, playDrone w)"
| "runCallback (PlayMelodyNote i) w =
     (let (i', out) = playMelodyNote i w in (PlayMelodyNote i', out))"
| "runCallback WindTick w = (WindTick, windTick w)"
| "runCallback CreakTick w = (CreakTick, creakTick w)"

definition setCallback :: "nat \<Rightarrow> callback \<Rightarrow> world \<Rightarrow> world" where
  "setCallback h cb w =
     w\<lparr>timers := map (\<lambda>(h', cb', ms). if h' = h then (h', cb, ms) else (h', cb', ms)) (timers w)\<rparr>"

definition fire :: "nat \<Rightarrow> world \<Rightarrow> outcome" where
  "fire h w =
     (case map_of (timers w) h of
        None \<Rightarrow> Returned w
      | Some (cb, ms) \<Rightarrow>
          let (cb', out) = runCallback cb w in map_outcome (setCallback h cb') out)"

text \<open>
  The events of a page: the first click and key press (the listeners of \<^verbatim>\<open>init\<close>), calls
  of the engine's operations by the user interface, an interval firing, the audio clock
  moving on by some seconds, and the platform granting or refusing audio. Firings are not
  tied to the periods in the table: a property of all sequences of events holds for the
  schedule the browser really runs.
\<close>

datatype event =
    Click
  | KeyDown
  | Initialize
  | StartMusic
  | StopMusic
  | HoverCue
  | ClickCue
  | PlayNote real real "waveform option" "real option" "node option"
  | PlayFilteredNoise real real real "node option"
  | Fire nat
  | Elapse real
  | AudioPermission bool

fun step :: "event \<Rightarrow> world \<Rightarrow> outcome" where
  "step Click w =
     (if clickListener w then initAudioContext (w\<lparr>clickListener := False\<rparr>) else Returned w)"
| "step KeyDown w =
     (if keydownListener w then initAudioContext (w\<lparr>keydownListener := False\<rparr>) else Returned w)"
| "step Initialize w = initAudioContext w"
| "step StartMusic w = startBackgroundMusic w"
| "step StopMusic w = stopBackgroundMusic w"
| "step HoverCue w = playHover w"
| "step ClickCue w = playClick w"
| "step (PlayNote freq duration type volume destination) w =
     playNote freq duration type volume destination w"
| "step (PlayFilteredNoise duration cutoff volume destination) w =
     playFilteredNoise duration cutoff volume destination w"
| "step (Fire h) w = fire h w"
| "step (Elapse dt) w = Returned (w\<lparr>currentTime := currentTime w + dt\<rparr>)"
| "step (AudioPermission b) w = Returned (w\<lparr>contextAvailable := b\<rparr>)"

text \<open>
  Each event is a task of its own: what one of them throws does not stop the next.
\<close>

fun run :: "event list \<Rightarrow> world \<Rightarrow> world" where
  "run [] w = w"
| "run (e # es) w = run es (world_of (step e w))"

fun outcomes :: "event list \<Rightarrow> world \<Rightarrow> outcome list" where
  "outcomes [] w = []"
| "outcomes (e # es) w = step e w # outcomes es (world_of (step e w))"

section \<open>Auxiliary notions for the proofs\<close>

text \<open>
  The nodes a device call acts on: the source of a connection, the node whose gain is set.
\<close>

fun touched :: "device_call \<Rightarrow> node list" where
  "touched (Connect a b) = [a]"
| "touched (SetGainValue n v) = [n]"
| "touched (SetValueAtTime n p v t) = [n]"
| "touched c = []"

text \<open>Every node the calls \<open>cs\<close> act on was created as number \<open>lo\<close> or later, and before \<open>hi\<close>.\<close>

definition freshCalls :: "nat \<Rightarrow> nat \<Rightarrow> device_call list \<Rightarrow> bool" where
  "freshCalls lo hi cs \<longleftrightarrow>
     (\<forall>c \<in> set cs. \<forall>n \<in> set (touched c). \<exists>i. n = Node i \<and> lo \<le> i \<and> i < hi)"

text \<open>From \<open>w\<close> to \<open>w'\<close> the device log was only extended, by calls that act on new nodes.\<close>

definition logGrows :: "world \<Rightarrow> world \<Rightarrow> bool" where
  "logGrows w w' \<longleftrightarrow>
     nodes w \<le> nodes w' \<and>
     (\<exists>cs. calls w' = calls w @ cs \<and> freshCalls (nodes w) (nodes w') cs)"

text \<open>From \<open>w\<close> to \<open>w'\<close> nothing happened but synthesis: device calls and random draws.\<close>

definition synthOnly :: "world \<Rightarrow> world \<Rightarrow> bool" where
  "synthOnly w w' \<longleftrightarrow>
     eng w' = eng w \<and> timers w' = timers w \<and> lastHandle w' = lastHandle w \<and>
     rng w' = rng w \<and> currentTime w' = currentTime w \<and>
     contextAvailable w' = contextAvailable w \<and> deviceSampleRate w' = deviceSampleRate w \<and>
     clickListener w' = clickListener w \<and> keydownListener w' = keydownListener w \<and>
     logGrows w w'"

text \<open>
  The calls \<^verbatim>\<open>playNote\<close> makes up to \<^verbatim>\<open>osc.connect(gain)\<close>, in a state whose next node
  is \<open>nodes w\<close> and whose clock reads \<open>currentTime w\<close>.
\<close>

definition noteCalls ::
  "real \<Rightarrow> real \<Rightarrow> waveform option \<Rightarrow> real option \<Rightarrow> world \<Rightarrow> device_call list" where
  "noteCalls freq duration type volume w =
     [CreateOscillator (Node (nodes w)),
      CreateGain (Node (Suc (nodes w))),
      SetOscType (Node (nodes w)) (case type of None \<Rightarrow> Sine | Some t \<Rightarrow> t),
      SetFrequencyValue (Node (nodes w)) freq,
      SetValueAtTime (Node (Suc (nodes w))) GainParam
        (case volume of None \<Rightarrow> 0.1 | Some v \<Rightarrow> v) (currentTime w),
      ExponentialRampToValueAtTime (Node (Suc (nodes w))) GainParam 0.001
        (currentTime w + duration),
      Connect (Node (nodes w)) (Node (Suc (nodes w)))]"

text \<open>
  The calls \<^verbatim>\<open>playFilteredNoise\<close> makes up to \<^verbatim>\<open>filter.connect(gain)\<close>.
\<close>

definition noiseCalls :: "real \<Rightarrow> real \<Rightarrow> real \<Rightarrow> audio_context \<Rightarrow> world \<Rightarrow> device_call list" where
  "noiseCalls duration cutoff volume ctx w =
     [CreateBuffer 1 (sampleRate ctx * duration) (sampleRate ctx),
      CreateBufferSource (Node (nodes w)),
      SetBuffer (Node (nodes w))
        (fst (fillNoise 0 (sampleRate ctx * duration)
               (replicate (nat \<lfloor>sampleRate ctx * duration\<rfloor>) 0) w)),
      CreateBiquadFilter (Node (Suc (nodes w))),
      SetFilterType (Node (Suc (nodes w))) Lowpass,
      SetFrequencyValue (Node (Suc (nodes w))) cutoff,
      CreateGain (Node (Suc (Suc (nodes w)))),
      SetValueAtTime (Node (Suc (Suc (nodes w)))) GainParam volume (currentTime w),
      LinearRampToValueAtTime (Node (Suc (Suc (nodes w)))) GainParam 0 (currentTime w + duration),
      Connect (Node (nodes w)) (Node (Suc (nodes w))),
      Connect (Node (Suc (nodes w))) (Node (Suc (Suc (nodes w))))]"

text \<open>The calls \<^verbatim>\<open>playCreak\<close> makes up to \<^verbatim>\<open>osc.connect(gain)\<close>.\<close>

definition creakCalls :: "world \<Rightarrow> device_call list" where
  "creakCalls w =
     [CreateOscillator (Node (nodes w)),
      CreateGain (Node (Suc (nodes w))),
      SetOscType (Node (nodes w)) Sawtooth,
      SetValueAtTime (Node (nodes w)) FrequencyParam (100 + rng w (drawn w) * 50) (currentTime w),
      LinearRampToValueAtTime (Node (nodes w)) FrequencyParam (60 + rng w (Suc (drawn w)) * 30)
        (currentTime w + 0.3),
      SetValueAtTime (Node (Suc (nodes w))) GainParam 0.03 (currentTime w),
      ExponentialRampToValueAtTime (Node (Suc (nodes w))) GainParam 0.001 (currentTime w + 0.3),
      Connect (Node (nodes w)) (Node (Suc (nodes w)))]"

text \<open>
  The parts of one melody tick: the frequency formula of lines 141 and 150, the new cursor
  index, the octave, and what follows the main note (lines 147-152).
\<close>

definition pitch :: "int \<Rightarrow> int \<Rightarrow> real" where
  "pitch octave semitone = baseFreq * 2 powr real_of_int octave * 2 powr (real_of_int semitone / 12)"

definition tickIndex :: "int \<Rightarrow> world \<Rightarrow> int" where
  "tickIndex i w =
     advance phrygian i (if rng w (drawn w) > 0.5 then 1 else - 1) \<lfloor>rng w (Suc (drawn w)) * 3\<rfloor>"

definition tickOctave :: "world \<Rightarrow> int" where
  "tickOctave w = 2 + \<lfloor>rng w (Suc (Suc (drawn w))) * 2\<rfloor>"

definition harmonyStep :: "int \<Rightarrow> int \<Rightarrow> world \<Rightarrow> outcome" where
  "harmonyStep j octave w5 =
     (if rng w5 (drawn w5) > 0.6
      then playNote (pitch octave (phrygian ! nat ((j + 2) mod int (length phrygian)))) 1.5
             (Some Sine) (Some 0.02) (musicGain (eng w5)) (w5\<lparr>drawn := Suc (drawn w5)\<rparr>)
      else Returned (w5\<lparr>drawn := Suc (drawn w5)\<rparr>))"

text \<open>
  Every live interval of the engine is recorded in \<^verbatim>\<open>ambientIntervals\<close> or is
  \<^verbatim>\<open>musicInterval\<close>, a recorded \<^verbatim>\<open>musicInterval\<close> is not 0, and no interval is live
  while no music is playing.
\<close>

definition accounted :: "world \<Rightarrow> bool" where
  "accounted w \<longleftrightarrow>
     (\<forall>h \<in> set (map fst (timers w)).
        h \<in> set (ambientIntervals (eng w)) \<or> musicInterval (eng w) = Some h) \<and>
     (\<forall>h. musicInterval (eng w) = Some h \<longrightarrow> h \<noteq> 0) \<and>
     (\<not> isMusicPlaying (eng w) \<longrightarrow> timers w = [])"

text \<open>The calls of one run of \<^verbatim>\<open>playDrone\<close> on an initialized engine.\<close>

definition droneCalls :: "audio_context \<Rightarrow> node \<Rightarrow> world \<Rightarrow> device_call list" where
  "droneCalls ctx bus w =
     noteCalls baseFreq 8 (Some Sine) (Some 0.04) w @
       [Connect (Node (nodes w + 1)) bus, Start (Node (nodes w)),
        Stop (Node (nodes w)) (currentTime w + 8)] @
     noteCalls (baseFreq * 1.5) 8 (Some Sine) (Some 0.025) (w\<lparr>nodes := nodes w + 2\<rparr>) @
       [Connect (Node (nodes w + 3)) bus, Start (Node (nodes w + 2)),
        Stop (Node (nodes w + 2)) (currentTime w + 8)] @
     noteCalls (baseFreq * 2) 8 (Some Triangle) (Some 0.015) (w\<lparr>nodes := nodes w + 4\<rparr>) @
       [Connect (Node (nodes w + 5)) bus, Start (Node (nodes w + 4)),
        Stop (Node (nodes w + 4)) (currentTime w + 8)] @
     noiseCalls 8 100 0.02 ctx (w\<lparr>nodes := nodes w + 6\<rparr>) @
       [Connect (Node (nodes w + 8)) bus, Start (Node (nodes w + 6))]"

text \<open>
  The state after lines 43-58 of \<^verbatim>\<open>initAudioContext\<close>: the context, the three gain nodes
  and the nine device calls that create, set and connect them.
\<close>

definition graphSetup :: "world \<Rightarrow> world" where
  "graphSetup w =
     w\<lparr>eng := (eng w)\<lparr>audioContext := Some (AudioContext (deviceSampleRate w)),
                        masterGain := Some (Node (nodes w)),
                        musicGain := Some (Node (nodes w + 1)),
                        sfxGain := Some (Node (nodes w + 2))\<rparr>,
       calls := calls w @
         [CreateGain (Node (nodes w)),
          SetGainValue (Node (nodes w)) (masterVolume (config (eng w))),
          Connect (Node (nodes w)) Destination,
          CreateGain (Node (nodes w + 1)),
          SetGainValue (Node (nodes w + 1)) (musicVolume (config (eng w))),
          Connect (Node (nodes w + 1)) (Node (nodes w)),
          CreateGain (Node (nodes w + 2)),
          SetGainValue (Node (nodes w + 2)) (sfxVolume (config (eng w))),
          Connect (Node (nodes w + 2)) (Node (nodes w))],
       nodes := nodes w + 3\<rparr>"

text \<open>Kinds of events: time passing, attempts to construct the device, the platform granting
  audio, and what starts the music.\<close>

fun timerEvent :: "event \<Rightarrow> bool" where
  "timerEvent (Fire h) = True"
| "timerEvent (Elapse dt) = True"
| "timerEvent e = False"

fun constructsDevice :: "event \<Rightarrow> bool" where
  "constructsDevice Click = True"
| "constructsDevice KeyDown = True"
| "constructsDevice Initialize = True"
| "constructsDevice e = False"

fun grantsAudio :: "event \<Rightarrow> bool" where
  "grantsAudio (AudioPermission b) = b"
| "grantsAudio e = False"

fun startsMusic :: "event \<Rightarrow> bool" where
  "startsMusic Click = True"
| "startsMusic KeyDown = True"
| "startsMusic Initialize = True"
| "startsMusic StartMusic = True"
| "startsMusic e = False"

text \<open>The value of \<^verbatim>\<open>lastNoteIndex\<close> in every live melody closure is an index of the scale.\<close>

definition cursorsInScale :: "world \<Rightarrow> bool" where
  "cursorsInScale w \<longleftrightarrow>
     (\<forall>t \<in> set (timers w). \<forall>i. fst (snd t) = PlayMelodyNote i \<longrightarrow>
        0 \<le> i \<and> i \<le> int (length phrygian) - 1)"

text \<open>Which generator a callback belongs to, whatever its closure holds.\<close>

fun generatorOf :: "callback \<Rightarrow> callback" where
  "generatorOf (PlayMelodyNote i) = PlayMelodyNote 0"
| "generatorOf cb = cb"

text \<open>Music is playing and interval \<open>h\<close> runs generator \<open>g\<close> with period \<open>ms\<close>.\<close>

definition scheduled :: "nat \<Rightarrow> callback \<Rightarrow> real \<Rightarrow> world \<Rightarrow> bool" where
  "scheduled h g ms w \<longleftrightarrow>
     isMusicPlaying (eng w) \<and>
     (case map_of (timers w) h of
        None \<Rightarrow> False
      | Some (cb, ms') \<Rightarrow> generatorOf cb = g \<and> ms' = ms)"

fun stopsMusic :: "event \<Rightarrow> bool" where
  "stopsMusic StopMusic = True"
| "stopsMusic e = False"

text \<open>The device side of the engine (context, the three buses, the volumes) is the same.\<close>

definition sameDevice :: "world \<Rightarrow> world \<Rightarrow> bool" where
  "sameDevice w w' \<longleftrightarrow>
     audioContext (eng w') = audioContext (eng w) \<and> masterGain (eng w') = masterGain (eng w) \<and>
     musicGain (eng w') = musicGain (eng w) \<and> sfxGain (eng w') = sfxGain (eng w) \<and>
     config (eng w') = config (eng w)"

text \<open>Two pages to evaluate the engine on: every random draw is 0.7; one has audio, one not.\<close>

definition samplePage :: page where
  "samplePage = \<lparr>pageRandom = (\<lambda>k. 7 / 10), pageTime = 0, pageAudio = True,
     pageSampleRate = 2, pageHandles = 0\<rparr>"

definition silentPage :: page where
  "silentPage = \<lparr>pageRandom = (\<lambda>k. 7 / 10), pageTime = 0, pageAudio = False,
     pageSampleRate = 2, pageHandles = 0\<rparr>"

text \<open>The state of \<open>samplePage\<close> after the first click: the engine is initialized and playing.\<close>

definition sampleWorld :: world where
  "sampleWorld = run [Initialize] (constructor samplePage)"

text \<open>
  The signal path of the device, read off the log, as the Web Audio graph works: a gain
  node multiplies the signal by its gain, every other node passes it on. A node feeds the
  node it was first connected to. The gain in effect on a node at the onset of a sound is the last value
  set on it by \<^verbatim>\<open>gain.value = v\<close> or \<^verbatim>\<open>gain.setValueAtTime(v, t)\<close>, and 1 on a node
  whose gain was never set. The gain from a node to the output is the product of the
  gains along its path to the destination, and 0 when the path does not get there.
\<close>

definition connections :: "device_call list \<Rightarrow> (node \<times> node) list" where
  "connections cs = [(a, b). Connect a b \<leftarrow> cs]"

fun gainStep :: "node \<Rightarrow> real \<Rightarrow> device_call \<Rightarrow> real" where
  "gainStep n g (SetGainValue m v) = (if m = n then v else g)"
| "gainStep n g (SetValueAtTime m p v t) = (if m = n \<and> p = GainParam then v else g)"
| "gainStep n g c = g"

definition onsetGain :: "device_call list \<Rightarrow> node \<Rightarrow> real" where
  "onsetGain cs n = foldl (gainStep n) 1 cs"

fun outputGain :: "nat \<Rightarrow> device_call list \<Rightarrow> node \<Rightarrow> real" where
  "outputGain k cs Destination = 1"
| "outputGain 0 cs (Node i) = 0"
| "outputGain (Suc k) cs (Node i) =
     (case map_of (connections cs) (Node i) of
        None \<Rightarrow> 0
      | Some m \<Rightarrow> onsetGain cs (Node i) * outputGain k cs m)"

definition effectiveGain :: "device_call list \<Rightarrow> node \<Rightarrow> real" where
  "effectiveGain cs n = outputGain (length cs) cs n"

text \<open>
  The gain graph of \<^verbatim>\<open>initAudioContext\<close> is in place: nodes 0, 1 and 2 are the master,
  music and sfx gains, with the volumes \<open>cfg\<close>, the two buses feed the master and the
  master feeds the output.
\<close>

definition graphReady :: "volumes \<Rightarrow> world \<Rightarrow> bool" where
  "graphReady cfg w \<longleftrightarrow>
     audioContext (eng w) \<noteq> None \<and> masterGain (eng w) = Some (Node 0) \<and>
     musicGain (eng w) = Some (Node 1) \<and> sfxGain (eng w) = Some (Node 2) \<and>
     3 \<le> nodes w \<and> freshCalls 0 (nodes w) (calls w) \<and>
     map_of (connections (calls w)) (Node 0) = Some Destination \<and>
     map_of (connections (calls w)) (Node 1) = Some (Node 0) \<and>
     map_of (connections (calls w)) (Node 2) = Some (Node 0) \<and>
     onsetGain (calls w) (Node 0) = masterVolume cfg \<and>
     onsetGain (calls w) (Node 1) = musicVolume cfg \<and>
     onsetGain (calls w) (Node 2) = sfxVolume cfg"

text \<open>A run of cursor moves, each a pair of a direction and a step, applied from left to right.\<close>

definition advances :: "int list \<Rightarrow> int \<Rightarrow> (int \<times> int) list \<Rightarrow> int" where
  "advances scale i moves =
     foldl (\<lambda>j (direction, step). advance scale j direction step) i moves"

text \<open>
  What one drone chord looks like in the device log: three oscillators and one noise source,
  created as nodes \<open>n\<close>, \<open>n + 2\<close>, \<open>n + 4\<close> and \<open>n + 6\<close>, all started at the time
  \<open>onset\<close> and all routed to \<open>bus\<close>; \<open>rate\<close> is the sample rate of the device. The
  noise source plays one buffer of \<open>\<lfloor>rate * 8\<rfloor>\<close> samples, sample \<open>k\<close> being
  \<open>draws k * 2 - 1\<close>, where \<open>draws\<close> is the sequence of numbers that \<^verbatim>\<open>Math.random()\<close>
  hands out from the start of the chord on.
\<close>

definition chordAt ::
  "nat \<Rightarrow> node \<Rightarrow> real \<Rightarrow> real \<Rightarrow> (nat \<Rightarrow> real) \<Rightarrow> device_call list \<Rightarrow> bool" where
  "chordAt n bus onset rate draws new \<longleftrightarrow>
     [m. Start m \<leftarrow> new] = [Node n, Node (n + 2), Node (n + 4), Node (n + 6)] \<and>
     [m. CreateOscillator m \<leftarrow> new] = [Node n, Node (n + 2), Node (n + 4)] \<and>
     [m. CreateBufferSource m \<leftarrow> new] = [Node (n + 6)] \<and>
     [(m, ty). SetOscType m ty \<leftarrow> new] =
       [(Node n, Sine), (Node (n + 2), Sine), (Node (n + 4), Triangle)] \<and>
     [(m, f). SetFrequencyValue m f \<leftarrow> new] =
       [(Node n, 73.42), (Node (n + 2), 73.42 * 1.5), (Node (n + 4), 73.42 * 2),
        (Node (n + 7), 100)] \<and>
     [(m, ft). SetFilterType m ft \<leftarrow> new] = [(Node (n + 7), Lowpass)] \<and>
     [(c, len, r). CreateBuffer c len r \<leftarrow> new] = [(1, rate * 8, rate)] \<and>
     [(m, samples). SetBuffer m samples \<leftarrow> new] =
       [(Node (n + 6), map (\<lambda>k. draws k * 2 - 1) [0..<nat \<lfloor>rate * 8\<rfloor>])] \<and>
     [(m, p, v, t). SetValueAtTime m p v t \<leftarrow> new] =
       [(Node (n + 1), GainParam, 0.04, onset), (Node (n + 3), GainParam, 0.025, onset),
        (Node (n + 5), GainParam, 0.015, onset), (Node (n + 8), GainParam, 0.02, onset)] \<and>
     [(m, p, v, t). ExponentialRampToValueAtTime m p v t \<leftarrow> new] =
       [(Node (n + 1), GainParam, 0.001, onset + 8), (Node (n + 3), GainParam, 0.001, onset + 8),
        (Node (n + 5), GainParam, 0.001, onset + 8)] \<and>
     [(m, p, v, t). LinearRampToValueAtTime m p v t \<leftarrow> new] =
       [(Node (n + 8), GainParam, 0, onset + 8)] \<and>
     [(m, t). Stop m t \<leftarrow> new] =
       [(Node n, onset + 8), (Node (n + 2), onset + 8), (Node (n + 4), onset + 8)] \<and>
     [(a, b). Connect a b \<leftarrow> new] =
       [(Node n, Node (n + 1)), (Node (n + 1), bus),
        (Node (n + 2), Node (n + 3)), (Node (n + 3), bus),
        (Node (n + 4), Node (n + 5)), (Node (n + 5), bus),
        (Node (n + 6), Node (n + 7)), (Node (n + 7), Node (n + 8)), (Node (n + 8), bus)]"



section \<open>Basic facts about the synthesis primitives\<close>

declare fillNoise.simps [simp del]

lemma fillNoise_world:
  "snd (fillNoise i bufferSize data w) = w\<lparr>drawn := drawn w + (nat \<lceil>bufferSize\<rceil> - i)\<rparr>"
proof (induction i bufferSize data w rule: fillNoise.induct)
  case (1 i bufferSize data w)
  show ?case
  proof (cases "real i < bufferSize")
    case True
    have "bufferSize \<le> real_of_int \<lceil>bufferSize\<rceil>"
      by (rule le_of_int_ceiling)
    with True have "int i < \<lceil>bufferSize\<rceil>"
      by linarith
    then have less: "i < nat \<lceil>bufferSize\<rceil>"
      by simp
    have "snd (fillNoise i bufferSize data w) =
        snd (fillNoise (Suc i) bufferSize (data[i := rng w (drawn w) * 2 - 1])
               (w\<lparr>drawn := Suc (drawn w)\<rparr>))"
      using True by (subst fillNoise.simps) (simp add: mathRandom_def)
    also have "\<dots> = (w\<lparr>drawn := Suc (drawn w)\<rparr>)\<lparr>drawn :=
        drawn (w\<lparr>drawn := Suc (drawn w)\<rparr>) + (nat \<lceil>bufferSize\<rceil> - Suc i)\<rparr>"
      using True by (intro "1.IH") (simp_all add: mathRandom_def)
    also have "\<dots> = w\<lparr>drawn := drawn w + (nat \<lceil>bufferSize\<rceil> - i)\<rparr>"
      using less by simp
    finally show ?thesis .
  next
    case False
    then have "bufferSize \<le> real i"
      by simp
    then have "nat \<lceil>bufferSize\<rceil> - i = 0"
      by simp
    moreover have "fillNoise i bufferSize data w = (data, w)"
      using False by (subst fillNoise.simps) (simp only: if_False)
    ultimately show ?thesis
      by simp
  qed
qed

lemma fillNoise_length:
  "length (fst (fillNoise i bufferSize data w)) = length data"
proof (induction i bufferSize data w rule: fillNoise.induct)
  case (1 i bufferSize data w)
  show ?case
  proof (cases "real i < bufferSize")
    case True
    have "fst (fillNoise i bufferSize data w) =
        fst (fillNoise (Suc i) bufferSize (data[i := rng w (drawn w) * 2 - 1])
               (w\<lparr>drawn := Suc (drawn w)\<rparr>))"
      using True by (subst fillNoise.simps) (simp add: mathRandom_def)
    moreover have "length (fst (fillNoise (Suc i) bufferSize (data[i := rng w (drawn w) * 2 - 1])
               (w\<lparr>drawn := Suc (drawn w)\<rparr>))) = length (data[i := rng w (drawn w) * 2 - 1])"
      using True by (intro "1.IH") (simp_all add: mathRandom_def)
    ultimately show ?thesis by simp
  next
    case False
    then show ?thesis by (subst fillNoise.simps) simp
  qed
qed

lemma fillNoise_data:
  "\<forall>w'. rng w' = rng w \<and> drawn w' = drawn w \<longrightarrow>
     fst (fillNoise i bufferSize data w') = fst (fillNoise i bufferSize data w)"
proof (induction i bufferSize data w rule: fillNoise.induct)
  case (1 i bufferSize data w)
  show ?case
  proof (intro allI impI)
    fix w' :: world
    assume same: "rng w' = rng w \<and> drawn w' = drawn w"
    show "fst (fillNoise i bufferSize data w') = fst (fillNoise i bufferSize data w)"
    proof (cases "real i < bufferSize")
      case True
      have step: "\<And>v. fillNoise i bufferSize data v =
          fillNoise (Suc i) bufferSize (data[i := rng v (drawn v) * 2 - 1])
            (v\<lparr>drawn := Suc (drawn v)\<rparr>)"
        using True by (subst fillNoise.simps) (simp add: mathRandom_def)
      have eq: "(rng w (drawn w), w\<lparr>drawn := Suc (drawn w)\<rparr>) = mathRandom w"
        by (simp add: mathRandom_def)
      have "fst (fillNoise (Suc i) bufferSize (data[i := rng w (drawn w) * 2 - 1])
            (w'\<lparr>drawn := Suc (drawn w')\<rparr>)) =
          fst (fillNoise (Suc i) bufferSize (data[i := rng w (drawn w) * 2 - 1])
            (w\<lparr>drawn := Suc (drawn w)\<rparr>))"
        using same by (intro "1.IH" [OF True refl eq, rule_format]) simp
      then show ?thesis
        using same by (simp only: step [of w] step [of w'])
    next
      case False
      have "\<And>v. fillNoise i bufferSize data v = (data, v)"
        using False by (subst fillNoise.simps) (simp only: if_False)
      then show ?thesis by simp
    qed
  qed
qed

lemma fillNoise_pair:
  "fillNoise 0 bufferSize data (w\<lparr>calls := cs\<rparr>) =
     (fst (fillNoise 0 bufferSize data w), w\<lparr>calls := cs, drawn := drawn w + nat \<lceil>bufferSize\<rceil>\<rparr>)"
proof -
  have "fst (fillNoise 0 bufferSize data (w\<lparr>calls := cs\<rparr>)) = fst (fillNoise 0 bufferSize data w)"
    by (rule fillNoise_data [rule_format]) simp
  moreover have "snd (fillNoise 0 bufferSize data (w\<lparr>calls := cs\<rparr>)) =
      w\<lparr>calls := cs, drawn := drawn w + nat \<lceil>bufferSize\<rceil>\<rparr>"
    by (simp add: fillNoise_world)
  ultimately show ?thesis
    by (simp add: prod_eq_iff)
qed

lemma playNote_disabled:
  "audioContext (eng w) = None \<Longrightarrow> playNote freq duration type volume destination w = Returned w"
  by (simp add: playNote_def)

lemma playNote_routed:
  assumes "audioContext (eng w) = Some ctx"
    and "orElse destination (masterGain (eng w)) = Some d"
  shows "playNote freq duration type volume destination w =
     Returned (w\<lparr>calls := calls w @ noteCalls freq duration type volume w @
        [Connect (Node (Suc (nodes w))) d,
         Start (Node (nodes w)),
         Stop (Node (nodes w)) (currentTime w + duration)],
        nodes := Suc (Suc (nodes w))\<rparr>)"
  using assms
  by (simp add: playNote_def noteCalls_def createOscillator_def createGain_def newNode_def call_def)

lemma playNote_unrouted:
  assumes "audioContext (eng w) = Some ctx"
    and "orElse destination (masterGain (eng w)) = None"
  shows "playNote freq duration type volume destination w =
     Thrown TypeError (w\<lparr>calls := calls w @ noteCalls freq duration type volume w,
        nodes := Suc (Suc (nodes w))\<rparr>)"
  using assms
  by (simp add: playNote_def noteCalls_def createOscillator_def createGain_def newNode_def call_def)

lemma playFilteredNoise_disabled:
  "audioContext (eng w) = None \<Longrightarrow> playFilteredNoise duration cutoff volume destination w = Returned w"
  by (simp add: playFilteredNoise_def)

lemma playFilteredNoise_routed:
  assumes "audioContext (eng w) = Some ctx"
    and "orElse destination (masterGain (eng w)) = Some d"
  shows "playFilteredNoise duration cutoff volume destination w =
     Returned (w\<lparr>calls := calls w @ noiseCalls duration cutoff volume ctx w @
                   [Connect (Node (Suc (Suc (nodes w)))) d, Start (Node (nodes w))],
                nodes := Suc (Suc (Suc (nodes w))),
                drawn := drawn w + nat \<lceil>sampleRate ctx * duration\<rceil>\<rparr>)"
  using assms
  by (simp add: playFilteredNoise_def noiseCalls_def call_def fillNoise_pair
      createBufferSource_def createBiquadFilter_def createGain_def newNode_def)
    (simp add: Let_def)

lemma playFilteredNoise_unrouted:
  assumes "audioContext (eng w) = Some ctx"
    and "orElse destination (masterGain (eng w)) = None"
  shows "playFilteredNoise duration cutoff volume destination w =
     Thrown TypeError (w\<lparr>calls := calls w @ noiseCalls duration cutoff volume ctx w,
                nodes := Suc (Suc (Suc (nodes w))),
                drawn := drawn w + nat \<lceil>sampleRate ctx * duration\<rceil>\<rparr>)"
  using assms
  by (simp add: playFilteredNoise_def noiseCalls_def call_def fillNoise_pair
      createBufferSource_def createBiquadFilter_def createGain_def newNode_def)
    (simp add: Let_def)

lemma freshCalls_Nil [simp]: "freshCalls lo hi []"
  by (simp add: freshCalls_def)

lemma freshCalls_append:
  "freshCalls lo mid cs \<Longrightarrow> freshCalls mid hi ds \<Longrightarrow> lo \<le> mid \<Longrightarrow> mid \<le> hi \<Longrightarrow>
     freshCalls lo hi (cs @ ds)"
  unfolding freshCalls_def by (fastforce simp: Ball_def)

lemma logGrows_refl: "logGrows w w"
  by (simp add: logGrows_def)

lemma logGrows_trans:
  assumes "logGrows w w1" and "logGrows w1 w2"
  shows "logGrows w w2"
proof -
  from assms(1) obtain cs where cs: "calls w1 = calls w @ cs" "freshCalls (nodes w) (nodes w1) cs"
    and le1: "nodes w \<le> nodes w1"
    by (auto simp: logGrows_def)
  from assms(2) obtain ds where ds: "calls w2 = calls w1 @ ds" "freshCalls (nodes w1) (nodes w2) ds"
    and le2: "nodes w1 \<le> nodes w2"
    by (auto simp: logGrows_def)
  from cs(2) ds(2) le1 le2 have "freshCalls (nodes w) (nodes w2) (cs @ ds)"
    by (rule freshCalls_append)
  moreover have "calls w2 = calls w @ cs @ ds"
    by (simp add: cs ds)
  ultimately show ?thesis
    using le1 le2 unfolding logGrows_def by auto
qed

lemma synthOnly_refl: "synthOnly w w"
  by (simp add: synthOnly_def logGrows_refl)

lemma synthOnly_trans: "synthOnly w w1 \<Longrightarrow> synthOnly w1 w2 \<Longrightarrow> synthOnly w w2"
  by (auto simp: synthOnly_def intro: logGrows_trans)

lemma synthOnly_and_then:
  assumes "synthOnly w (world_of out)"
    and "\<And>w1. synthOnly w1 (world_of (f w1))"
  shows "synthOnly w (world_of (and_then out f))"
proof (cases out)
  case (Returned w1)
  with assms(1) assms(2) [of w1] show ?thesis
    by (auto intro: synthOnly_trans)
next
  case (Thrown e w1)
  with assms(1) show ?thesis by simp
qed

lemma synthOnly_playNote: "synthOnly w (world_of (playNote freq duration type volume destination w))"
proof (cases "audioContext (eng w)")
  case None
  then show ?thesis by (simp add: playNote_disabled synthOnly_refl)
next
  case (Some ctx)
  show ?thesis
  proof (cases "orElse destination (masterGain (eng w))")
    case None
    show ?thesis
      by (simp add: playNote_unrouted [OF Some None] synthOnly_def logGrows_def freshCalls_def
          noteCalls_def)
  next
    case (Some d)
    show ?thesis
      by (simp add: playNote_routed [OF \<open>audioContext (eng w) = Some ctx\<close> Some] synthOnly_def
          logGrows_def freshCalls_def noteCalls_def)
  qed
qed

lemma synthOnly_playFilteredNoise:
  "synthOnly w (world_of (playFilteredNoise duration cutoff volume destination w))"
proof (cases "audioContext (eng w)")
  case None
  then show ?thesis by (simp add: playFilteredNoise_disabled synthOnly_refl)
next
  case (Some ctx)
  show ?thesis
  proof (cases "orElse destination (masterGain (eng w))")
    case None
    show ?thesis
      by (simp add: playFilteredNoise_unrouted [OF Some None] synthOnly_def logGrows_def
          freshCalls_def noiseCalls_def)
  next
    case (Some d)
    show ?thesis
      by (simp add: playFilteredNoise_routed [OF \<open>audioContext (eng w) = Some ctx\<close> Some]
          synthOnly_def logGrows_def freshCalls_def noiseCalls_def)
  qed
qed

lemma playCreak_disabled: "audioContext (eng w) = None \<Longrightarrow> playCreak w = Returned w"
  by (simp add: playCreak_def)

lemma playCreak_routed:
  assumes "audioContext (eng w) = Some ctx" and "musicGain (eng w) = Some d"
  shows "playCreak w =
     Returned (w\<lparr>calls := calls w @ creakCalls w @
        [Connect (Node (Suc (nodes w))) d,
         Start (Node (nodes w)),
         Stop (Node (nodes w)) (currentTime w + 0.3)],
        nodes := Suc (Suc (nodes w)), drawn := Suc (Suc (drawn w))\<rparr>)"
  using assms
  by (simp add: playCreak_def creakCalls_def createOscillator_def createGain_def newNode_def
      call_def mathRandom_def)

lemma playCreak_unrouted:
  assumes "audioContext (eng w) = Some ctx" and "musicGain (eng w) = None"
  shows "playCreak w =
     Thrown TypeError (w\<lparr>calls := calls w @ creakCalls w,
        nodes := Suc (Suc (nodes w)), drawn := Suc (Suc (drawn w))\<rparr>)"
  using assms
  by (simp add: playCreak_def creakCalls_def createOscillator_def createGain_def newNode_def
      call_def mathRandom_def)

lemma synthOnly_playCreak: "synthOnly w (world_of (playCreak w))"
proof (cases "audioContext (eng w)")
  case None
  then show ?thesis by (simp add: playCreak_disabled synthOnly_refl)
next
  case (Some ctx)
  show ?thesis
  proof (cases "musicGain (eng w)")
    case None
    show ?thesis
      by (simp add: playCreak_unrouted [OF Some None] synthOnly_def logGrows_def freshCalls_def
          creakCalls_def)
  next
    case (Some d)
    show ?thesis
      by (simp add: playCreak_routed [OF \<open>audioContext (eng w) = Some ctx\<close> Some] synthOnly_def
          logGrows_def freshCalls_def creakCalls_def)
  qed
qed

lemma synthOnly_drawn: "synthOnly w (w\<lparr>drawn := d\<rparr>)"
  by (simp add: synthOnly_def logGrows_def)

lemma synthOnly_mathRandom: "synthOnly w (snd (mathRandom w))"
  by (simp add: mathRandom_def synthOnly_drawn)

lemma synthOnly_playWind: "synthOnly w (world_of (playWind duration w))"
  by (simp add: playWind_def synthOnly_playFilteredNoise)

lemma synthOnly_playHover: "synthOnly w (world_of (playHover w))"
  by (simp add: playHover_def synthOnly_playNote)

lemma synthOnly_playClick: "synthOnly w (world_of (playClick w))"
  by (simp add: playClick_def synthOnly_playNote)

lemma synthOnly_playDrone: "synthOnly w (world_of (playDrone w))"
  unfolding playDrone_def
  by (intro synthOnly_and_then synthOnly_playNote synthOnly_playFilteredNoise)

lemma synthOnly_windTick: "synthOnly w (world_of (windTick w))"
proof (cases "rng w (drawn w) > 0.7 \<and> isMusicPlaying (eng w)")
  case True
  have "synthOnly w (w\<lparr>drawn := Suc (Suc (drawn w))\<rparr>)"
    by (rule synthOnly_drawn)
  then have "synthOnly w (world_of (playWind d (w\<lparr>drawn := Suc (Suc (drawn w))\<rparr>)))" for d
    by (rule synthOnly_trans) (rule synthOnly_playWind)
  with True show ?thesis
    by (simp add: windTick_def mathRandom_def)
next
  case False
  then show ?thesis
    by (auto simp add: windTick_def mathRandom_def synthOnly_drawn)
qed

lemma synthOnly_creakTick: "synthOnly w (world_of (creakTick w))"
proof (cases "rng w (drawn w) > 0.8 \<and> isMusicPlaying (eng w)")
  case True
  have "synthOnly w (w\<lparr>drawn := Suc (drawn w)\<rparr>)"
    by (rule synthOnly_drawn)
  then have "synthOnly w (world_of (playCreak (w\<lparr>drawn := Suc (drawn w)\<rparr>)))"
    by (rule synthOnly_trans) (rule synthOnly_playCreak)
  with True show ?thesis
    by (simp add: creakTick_def mathRandom_def)
next
  case False
  then show ?thesis
    by (auto simp add: creakTick_def mathRandom_def synthOnly_drawn)
qed

lemma playMelodyNote_silent:
  "\<not> isMusicPlaying (eng w) \<Longrightarrow> playMelodyNote i w = (i, Returned w)"
  by (simp add: playMelodyNote_def)

lemma playMelodyNote_playing:
  assumes "isMusicPlaying (eng w)"
  shows "playMelodyNote i w =
    (tickIndex i w,
     and_then
       (playNote (pitch (tickOctave w) (phrygian ! nat (tickIndex i w)))
          (2 + rng w (Suc (Suc (Suc (drawn w)))) * 2) (Some Triangle) (Some 0.03)
          (musicGain (eng w)) (w\<lparr>drawn := Suc (Suc (Suc (Suc (drawn w))))\<rparr>))
       (harmonyStep (tickIndex i w) (tickOctave w)))"
  using assms
  unfolding playMelodyNote_def harmonyStep_def [abs_def] tickIndex_def tickOctave_def pitch_def
  by (simp add: mathRandom_def Let_def split_def cong: if_cong)

lemma world_of_map_outcome: "world_of (map_outcome f out) = f (world_of out)"
  by (cases out) simp_all

lemma synthOnly_harmonyStep: "synthOnly w (world_of (harmonyStep j octave w))"
proof -
  have "synthOnly w (w\<lparr>drawn := Suc (drawn w)\<rparr>)"
    by (rule synthOnly_drawn)
  moreover have "synthOnly (w\<lparr>drawn := Suc (drawn w)\<rparr>)
      (world_of (playNote f 1.5 (Some Sine) (Some 0.02) g (w\<lparr>drawn := Suc (drawn w)\<rparr>)))" for f g
    by (rule synthOnly_playNote)
  ultimately show ?thesis
    unfolding harmonyStep_def by (auto intro: synthOnly_trans)
qed

lemma synthOnly_playMelodyNote: "synthOnly w (world_of (snd (playMelodyNote i w)))"
proof (cases "isMusicPlaying (eng w)")
  case False
  then show ?thesis by (simp add: playMelodyNote_silent synthOnly_refl)
next
  case True
  have "synthOnly w (w\<lparr>drawn := Suc (Suc (Suc (Suc (drawn w))))\<rparr>)"
    by (rule synthOnly_drawn)
  then have "synthOnly w (world_of (playNote f d t v g (w\<lparr>drawn := Suc (Suc (Suc (Suc (drawn w))))\<rparr>)))"
    for f d t v g
    by (rule synthOnly_trans) (rule synthOnly_playNote)
  then show ?thesis
    unfolding playMelodyNote_playing [OF True] snd_conv
    by (intro synthOnly_and_then synthOnly_harmonyStep)
qed

lemma synthOnly_runCallback: "synthOnly w (world_of (snd (runCallback cb w)))"
proof (cases cb)
  case PlayDrone
  then show ?thesis by (simp add: synthOnly_playDrone)
next
  case (PlayMelodyNote i)
  then show ?thesis using synthOnly_playMelodyNote [of w i] by (simp add: split_def Let_def)
next
  case WindTick
  then show ?thesis by (simp add: synthOnly_windTick)
next
  case CreakTick
  then show ?thesis by (simp add: synthOnly_creakTick)
qed

lemma fire_unknown: "map_of (timers w) h = None \<Longrightarrow> fire h w = Returned w"
  by (simp add: fire_def)

lemma fire_known:
  "map_of (timers w) h = Some (cb, ms) \<Longrightarrow>
     fire h w = map_outcome (setCallback h (fst (runCallback cb w))) (snd (runCallback cb w))"
  by (simp add: fire_def split_def Let_def)

lemma setCallback_handles: "map fst (timers (setCallback h cb w)) = map fst (timers w)"
  by (simp add: setCallback_def split_def comp_def)

lemma setCallback_eng: "eng (setCallback h cb w) = eng w"
  by (simp add: setCallback_def)

lemma setCallback_calls: "calls (setCallback h cb w) = calls w"
  by (simp add: setCallback_def)

lemma accounted_synthOnly: "synthOnly w w' \<Longrightarrow> accounted w \<Longrightarrow> accounted w'"
  by (simp add: synthOnly_def accounted_def)

lemma accounted_setCallback: "accounted w \<Longrightarrow> accounted (setCallback h cb w)"
  unfolding accounted_def setCallback_handles setCallback_eng
  by (simp add: setCallback_def)

lemma accounted_fire: "accounted w \<Longrightarrow> accounted (world_of (fire h w))"
proof (cases "map_of (timers w) h")
  case None
  assume "accounted w"
  with None show ?thesis by (simp add: fire_unknown)
next
  case (Some t)
  assume acc: "accounted w"
  obtain cb ms where t: "t = (cb, ms)" by (cases t)
  have "accounted (world_of (snd (runCallback cb w)))"
    using synthOnly_runCallback acc by (rule accounted_synthOnly)
  then show ?thesis
    using Some unfolding t by (simp add: fire_known world_of_map_outcome accounted_setCallback)
qed

lemma fold_clearInterval:
  "fold clearInterval hs w = w\<lparr>timers := filter (\<lambda>t. fst t \<notin> set hs) (timers w)\<rparr>"
proof (induction hs arbitrary: w)
  case Nil
  show ?case by simp
next
  case (Cons h hs)
  have "filter (\<lambda>t. fst t \<notin> set hs) (filter (\<lambda>t. fst t \<noteq> h) ts) =
      filter (\<lambda>t. fst t \<notin> set (h # hs)) ts" for ts :: "(nat \<times> callback \<times> real) list"
    by (induction ts) auto
  then show ?case
    unfolding fold_simps Cons.IH by (simp add: clearInterval_def)
qed

lemma stop_accounted:
  assumes "accounted w"
  shows "stopBackgroundMusic w =
     Returned (w\<lparr>eng := (eng w)\<lparr>isMusicPlaying := False, musicInterval := None,
                                 ambientIntervals := []\<rparr>,
                timers := []\<rparr>)"
proof (cases "musicInterval (eng w)")
  case None
  with assms have "\<forall>t \<in> set (timers w). fst t \<in> set (ambientIntervals (eng w))"
    by (simp add: accounted_def)
  then have "filter (\<lambda>t. fst t \<notin> set (ambientIntervals (eng w))) (timers w) = []"
    by (simp add: filter_empty_conv)
  moreover have "(eng w)\<lparr>isMusicPlaying := False, musicInterval := None, ambientIntervals := []\<rparr>
      = (eng w)\<lparr>isMusicPlaying := False, ambientIntervals := []\<rparr>"
    using None by (cases "eng w") simp
  ultimately show ?thesis
    using None by (simp add: stopBackgroundMusic_def fold_clearInterval Let_def)
next
  case (Some h)
  with assms have "h \<noteq> 0"
    by (simp add: accounted_def)
  from assms Some have "\<forall>t \<in> set (timers w). fst t \<in> set (ambientIntervals (eng w)) \<or> fst t = h"
    by (auto simp: accounted_def)
  then have "filter (\<lambda>t. fst t \<noteq> h)
      (filter (\<lambda>t. fst t \<notin> set (ambientIntervals (eng w))) (timers w)) = []"
    by (auto simp: filter_empty_conv)
  with Some \<open>h \<noteq> 0\<close> show ?thesis
    by (simp add: stopBackgroundMusic_def fold_clearInterval clearInterval_def Let_def)
qed

lemma fillNoise_data_calls [simp]:
  "fst (fillNoise i bufferSize data (w\<lparr>calls := cs\<rparr>)) = fst (fillNoise i bufferSize data w)"
  by (rule fillNoise_data [rule_format]) simp

lemma fillNoise_data_nodes [simp]:
  "fst (fillNoise i bufferSize data (w\<lparr>nodes := n\<rparr>)) = fst (fillNoise i bufferSize data w)"
  by (rule fillNoise_data [rule_format]) simp

lemma playNote_bus:
  assumes "audioContext (eng w) \<noteq> None"
  shows "playNote freq duration type volume (Some bus) w =
     Returned (w\<lparr>calls := calls w @ noteCalls freq duration type volume w @
        [Connect (Node (Suc (nodes w))) bus,
         Start (Node (nodes w)),
         Stop (Node (nodes w)) (currentTime w + duration)],
        nodes := Suc (Suc (nodes w))\<rparr>)"
proof -
  from assms obtain ctx where "audioContext (eng w) = Some ctx"
    by auto
  moreover have "orElse (Some bus) (masterGain (eng w)) = Some bus"
    by (simp add: orElse_def)
  ultimately show ?thesis
    by (rule playNote_routed)
qed

lemma playFilteredNoise_bus:
  assumes "audioContext (eng w) \<noteq> None"
  shows "playFilteredNoise duration cutoff volume (Some bus) w =
     Returned (w\<lparr>calls := calls w @
                   noiseCalls duration cutoff volume (the (audioContext (eng w))) w @
                   [Connect (Node (Suc (Suc (nodes w)))) bus, Start (Node (nodes w))],
                nodes := Suc (Suc (Suc (nodes w))),
                drawn := drawn w + nat \<lceil>sampleRate (the (audioContext (eng w))) * duration\<rceil>\<rparr>)"
proof -
  from assms obtain ctx where ctx: "audioContext (eng w) = Some ctx"
    by auto
  have "orElse (Some bus) (masterGain (eng w)) = Some bus"
    by (simp add: orElse_def)
  from playFilteredNoise_routed [OF ctx this] ctx show ?thesis
    by simp
qed

lemma playDrone_ready:
  assumes "audioContext (eng w) = Some ctx" and "musicGain (eng w) = Some bus"
  shows "playDrone w =
     Returned (w\<lparr>calls := calls w @ droneCalls ctx bus w,
                nodes := nodes w + 9,
                drawn := drawn w + nat \<lceil>sampleRate ctx * 8\<rceil>\<rparr>)"
  using assms
  by (simp add: playDrone_def playNote_bus playFilteredNoise_bus droneCalls_def
      noteCalls_def noiseCalls_def)

lemma startMelody_enabled:
  assumes "audioContext (eng w) \<noteq> None"
  shows "startMelody w =
     Returned (w\<lparr>eng := (eng w)\<lparr>musicInterval := Some (Suc (lastHandle w))\<rparr>,
                timers := timers w @
                  [(Suc (lastHandle w), PlayMelodyNote 0, 3000 + rng w (drawn w) * 4000)],
                lastHandle := Suc (lastHandle w),
                drawn := Suc (drawn w)\<rparr>)"
  using assms by (auto simp add: startMelody_def mathRandom_def setInterval_def)

lemma startAmbientEffects_enabled:
  assumes "audioContext (eng w) \<noteq> None"
  shows "startAmbientEffects w =
     Returned (w\<lparr>eng := (eng w)\<lparr>ambientIntervals := ambientIntervals (eng w) @
                  [Suc (lastHandle w), Suc (Suc (lastHandle w))]\<rparr>,
                timers := timers w @
                  [(Suc (lastHandle w), WindTick, 8000),
                   (Suc (Suc (lastHandle w)), CreakTick, 12000)],
                lastHandle := Suc (Suc (lastHandle w))\<rparr>)"
  using assms by (auto simp add: startAmbientEffects_def setInterval_def)

lemma startDrone_enabled:
  assumes "audioContext (eng w) \<noteq> None"
  shows "startDrone w =
     and_then (playDrone w) (\<lambda>w1.
       Returned (w1\<lparr>timers := timers w1 @ [(Suc (lastHandle w1), PlayDrone, 7500)],
                  lastHandle := Suc (lastHandle w1),
                  eng := (eng w1)\<lparr>ambientIntervals := ambientIntervals (eng w1) @
                    [Suc (lastHandle w1)]\<rparr>\<rparr>))"
  using assms by (auto simp add: startDrone_def setInterval_def)

lemma startBackgroundMusic_ready:
  assumes "audioContext (eng w) = Some ctx" and "musicGain (eng w) = Some bus"
    and "\<not> isMusicPlaying (eng w)"
  shows "startBackgroundMusic w =
     Returned (w\<lparr>eng := (eng w)\<lparr>isMusicPlaying := True,
                    musicInterval := Some (lastHandle w + 2),
                    ambientIntervals := ambientIntervals (eng w) @
                      [lastHandle w + 1, lastHandle w + 3, lastHandle w + 4]\<rparr>,
                timers := timers w @
                  [(lastHandle w + 1, PlayDrone, 7500),
                   (lastHandle w + 2, PlayMelodyNote 0,
                      3000 + rng w (drawn w + nat \<lceil>sampleRate ctx * 8\<rceil>) * 4000),
                   (lastHandle w + 3, WindTick, 8000),
                   (lastHandle w + 4, CreakTick, 12000)],
                lastHandle := lastHandle w + 4,
                calls := calls w @ droneCalls ctx bus (w\<lparr>eng := (eng w)\<lparr>isMusicPlaying := True\<rparr>\<rparr>),
                nodes := nodes w + 9,
                drawn := Suc (drawn w + nat \<lceil>sampleRate ctx * 8\<rceil>)\<rparr>)"
  using assms
  by (simp add: startBackgroundMusic_def startDrone_enabled playDrone_ready
      startMelody_enabled startAmbientEffects_enabled)

lemma initAudioContext_again:
  "audioContext (eng w) \<noteq> None \<Longrightarrow> initAudioContext w = Returned w"
  by (auto simp add: initAudioContext_def)

lemma initAudioContext_unavailable:
  "audioContext (eng w) = None \<Longrightarrow> \<not> contextAvailable w \<Longrightarrow> initAudioContext w = Returned w"
  by (simp add: initAudioContext_def initAudioContextBody_def)

lemma initAudioContextBody_available:
  "contextAvailable w \<Longrightarrow> initAudioContextBody w = startBackgroundMusic (graphSetup w)"
proof -
  assume "contextAvailable w"
  then have "initAudioContextBody w = startBackgroundMusic
      (w\<lparr>nodes := Suc (Suc (Suc (nodes w))),
         eng := (eng w)\<lparr>audioContext := Some (AudioContext (deviceSampleRate w)),
                          masterGain := Some (Node (nodes w)),
                          musicGain := Some (Node (Suc (nodes w))),
                          sfxGain := Some (Node (Suc (Suc (nodes w))))\<rparr>,
         calls := calls (graphSetup w)\<rparr>)"
    by (simp add: initAudioContextBody_def graphSetup_def createGain_def newNode_def call_def)
  also have "w\<lparr>nodes := Suc (Suc (Suc (nodes w))),
         eng := (eng w)\<lparr>audioContext := Some (AudioContext (deviceSampleRate w)),
                          masterGain := Some (Node (nodes w)),
                          musicGain := Some (Node (Suc (nodes w))),
                          sfxGain := Some (Node (Suc (Suc (nodes w))))\<rparr>,
         calls := calls (graphSetup w)\<rparr> = graphSetup w"
    by (simp add: graphSetup_def)
  finally show ?thesis .
qed

lemma initAudioContext_available:
  "audioContext (eng w) = None \<Longrightarrow> contextAvailable w \<Longrightarrow>
     initAudioContext w = Returned (world_of (startBackgroundMusic (graphSetup w)))"
  by (simp add: initAudioContext_def initAudioContextBody_available)

lemma startBackgroundMusic_noop:
  "isMusicPlaying (eng w) \<or> audioContext (eng w) = None \<Longrightarrow> startBackgroundMusic w = Returned w"
  by (auto simp add: startBackgroundMusic_def)

lemma startBackgroundMusic_shape:
  assumes ctx: "audioContext (eng w) \<noteq> None" and idle: "\<not> isMusicPlaying (eng w)"
  shows "(\<exists>e w2. startBackgroundMusic w = Thrown e w2 \<and>
            synthOnly (w\<lparr>eng := (eng w)\<lparr>isMusicPlaying := True\<rparr>\<rparr>) w2) \<or>
         (\<exists>w2. synthOnly (w\<lparr>eng := (eng w)\<lparr>isMusicPlaying := True\<rparr>\<rparr>) w2 \<and>
            startBackgroundMusic w =
              Returned (w2\<lparr>eng := (eng w)\<lparr>isMusicPlaying := True,
                              musicInterval := Some (lastHandle w + 2),
                              ambientIntervals := ambientIntervals (eng w) @
                                [lastHandle w + 1, lastHandle w + 3, lastHandle w + 4]\<rparr>,
                          timers := timers w @
                            [(lastHandle w + 1, PlayDrone, 7500),
                             (lastHandle w + 2, PlayMelodyNote 0, 3000 + rng w (drawn w2) * 4000),
                             (lastHandle w + 3, WindTick, 8000),
                             (lastHandle w + 4, CreakTick, 12000)],
                          lastHandle := lastHandle w + 4,
                          drawn := Suc (drawn w2)\<rparr>))"
proof -
  let ?w1 = "w\<lparr>eng := (eng w)\<lparr>isMusicPlaying := True\<rparr>\<rparr>"
  have frame: "synthOnly ?w1 (world_of (playDrone ?w1))"
    by (rule synthOnly_playDrone)
  have start: "startBackgroundMusic w =
      and_then (startDrone ?w1) (\<lambda>w2. and_then (startMelody w2) startAmbientEffects)"
    using ctx idle by (auto simp add: startBackgroundMusic_def)
  have ctx1: "audioContext (eng ?w1) \<noteq> None"
    using ctx by simp
  show ?thesis
  proof (cases "playDrone ?w1")
    case (Thrown e w2)
    with frame have "synthOnly ?w1 w2" by simp
    moreover have "startBackgroundMusic w = Thrown e w2"
      unfolding start startDrone_enabled [OF ctx1] Thrown by simp
    ultimately show ?thesis by blast
  next
    case (Returned w2)
    with frame have w2: "synthOnly ?w1 w2" by simp
    then have same: "eng w2 = eng ?w1" "timers w2 = timers w" "lastHandle w2 = lastHandle w"
      "rng w2 = rng w"
      by (simp_all add: synthOnly_def)
    have "startBackgroundMusic w =
        Returned (w2\<lparr>eng := (eng w)\<lparr>isMusicPlaying := True,
                              musicInterval := Some (lastHandle w + 2),
                              ambientIntervals := ambientIntervals (eng w) @
                                [lastHandle w + 1, lastHandle w + 3, lastHandle w + 4]\<rparr>,
                          timers := timers w @
                            [(lastHandle w + 1, PlayDrone, 7500),
                             (lastHandle w + 2, PlayMelodyNote 0, 3000 + rng w (drawn w2) * 4000),
                             (lastHandle w + 3, WindTick, 8000),
                             (lastHandle w + 4, CreakTick, 12000)],
                          lastHandle := lastHandle w + 4,
                          drawn := Suc (drawn w2)\<rparr>)"
      unfolding start startDrone_enabled [OF ctx1] Returned
      using ctx by (simp add: same startMelody_enabled startAmbientEffects_enabled)
    with w2 show ?thesis by blast
  qed
qed

lemma startBackgroundMusic_playing:
  assumes "audioContext (eng w) \<noteq> None"
  shows "isMusicPlaying (eng (world_of (startBackgroundMusic w)))"
proof (cases "isMusicPlaying (eng w)")
  case True
  then show ?thesis by (simp add: startBackgroundMusic_noop)
next
  case False
  from startBackgroundMusic_shape [OF assms False] show ?thesis
    by (auto simp: synthOnly_def)
qed

lemma startBackgroundMusic_context:
  "audioContext (eng (world_of (startBackgroundMusic w))) = audioContext (eng w)"
proof (cases "isMusicPlaying (eng w) \<or> audioContext (eng w) = None")
  case True
  then show ?thesis by (simp add: startBackgroundMusic_noop)
next
  case False
  then have "audioContext (eng w) \<noteq> None" "\<not> isMusicPlaying (eng w)" by simp_all
  from startBackgroundMusic_shape [OF this] show ?thesis
    by (auto simp: synthOnly_def)
qed

lemma accounted_start:
  assumes "accounted w"
  shows "accounted (world_of (startBackgroundMusic w))"
proof (cases "isMusicPlaying (eng w) \<or> audioContext (eng w) = None")
  case True
  with assms show ?thesis by (simp add: startBackgroundMusic_noop)
next
  case False
  then have ctx: "audioContext (eng w) \<noteq> None" and idle: "\<not> isMusicPlaying (eng w)" by simp_all
  from assms idle have none: "timers w = []"
    by (simp add: accounted_def)
  from assms have music: "\<forall>h. musicInterval (eng w) = Some h \<longrightarrow> h \<noteq> 0"
    by (simp add: accounted_def)
  from startBackgroundMusic_shape [OF ctx idle] show ?thesis
  proof (elim disjE exE conjE)
    fix e w2
    assume "startBackgroundMusic w = Thrown e w2"
      and "synthOnly (w\<lparr>eng := (eng w)\<lparr>isMusicPlaying := True\<rparr>\<rparr>) w2"
    with none music show ?thesis
      by (simp add: accounted_def synthOnly_def)
  next
    fix w2
    assume "synthOnly (w\<lparr>eng := (eng w)\<lparr>isMusicPlaying := True\<rparr>\<rparr>) w2"
      and "startBackgroundMusic w =
              Returned (w2\<lparr>eng := (eng w)\<lparr>isMusicPlaying := True,
                              musicInterval := Some (lastHandle w + 2),
                              ambientIntervals := ambientIntervals (eng w) @
                                [lastHandle w + 1, lastHandle w + 3, lastHandle w + 4]\<rparr>,
                          timers := timers w @
                            [(lastHandle w + 1, PlayDrone, 7500),
                             (lastHandle w + 2, PlayMelodyNote 0, 3000 + rng w (drawn w2) * 4000),
                             (lastHandle w + 3, WindTick, 8000),
                             (lastHandle w + 4, CreakTick, 12000)],
                          lastHandle := lastHandle w + 4,
                          drawn := Suc (drawn w2)\<rparr>)"
    with none show ?thesis
      by (simp add: accounted_def)
  qed
qed

lemma accounted_graphSetup: "accounted w \<Longrightarrow> accounted (graphSetup w)"
  by (simp add: accounted_def graphSetup_def)

lemma accounted_init:
  assumes "accounted w"
  shows "accounted (world_of (initAudioContext w))"
proof (cases "audioContext (eng w) = None")
  case False
  with assms show ?thesis by (simp add: initAudioContext_again)
next
  case True
  show ?thesis
  proof (cases "contextAvailable w")
    case False
    with True assms show ?thesis by (simp add: initAudioContext_unavailable)
  next
    case avail: True
    from assms have "accounted (world_of (startBackgroundMusic (graphSetup w)))"
      by (intro accounted_start accounted_graphSetup)
    then show ?thesis
      by (simp add: initAudioContext_available [OF True avail])
  qed
qed

lemma accounted_stop: "accounted w \<Longrightarrow> accounted (world_of (stopBackgroundMusic w))"
  by (simp add: stop_accounted) (simp add: accounted_def)

lemma accounted_step:
  assumes "accounted w"
  shows "accounted (world_of (step e w))"
proof (cases e)
  case Click
  have "accounted (w\<lparr>clickListener := False\<rparr>)"
    using assms by (simp add: accounted_def)
  with assms Click show ?thesis by (simp add: accounted_init)
next
  case KeyDown
  have "accounted (w\<lparr>keydownListener := False\<rparr>)"
    using assms by (simp add: accounted_def)
  with assms KeyDown show ?thesis by (simp add: accounted_init)
next
  case Initialize
  with assms show ?thesis by (simp add: accounted_init)
next
  case StartMusic
  with assms show ?thesis by (simp add: accounted_start)
next
  case StopMusic
  with assms show ?thesis by (simp add: accounted_stop)
next
  case HoverCue
  with assms show ?thesis by (simp add: accounted_synthOnly [OF synthOnly_playHover])
next
  case ClickCue
  with assms show ?thesis by (simp add: accounted_synthOnly [OF synthOnly_playClick])
next
  case (PlayNote f d t v g)
  with assms show ?thesis by (simp add: accounted_synthOnly [OF synthOnly_playNote])
next
  case (PlayFilteredNoise d c v g)
  with assms show ?thesis by (simp add: accounted_synthOnly [OF synthOnly_playFilteredNoise])
next
  case (Fire h)
  with assms show ?thesis by (simp add: accounted_fire)
next
  case (Elapse dt)
  with assms show ?thesis by (simp add: accounted_def)
next
  case (AudioPermission b)
  with assms show ?thesis by (simp add: accounted_def)
qed

lemma accounted_run: "accounted w \<Longrightarrow> accounted (run evs w)"
  by (induction evs arbitrary: w) (simp_all add: accounted_step)

lemma accounted_constructor: "accounted (constructor p)"
  by (simp add: accounted_def constructor_def)

lemma quiet_run:
  "timers w = [] \<Longrightarrow> list_all timerEvent later \<Longrightarrow>
     calls (run later w) = calls w \<and> timers (run later w) = []"
proof (induction later arbitrary: w)
  case Nil
  then show ?case by simp
next
  case (Cons e later)
  from Cons.prems have e: "timerEvent e" and rest: "list_all timerEvent later"
    by simp_all
  from e Cons.prems(1) have "calls (world_of (step e w)) = calls w \<and> timers (world_of (step e w)) = []"
    by (cases e) (simp_all add: fire_unknown)
  with Cons.IH [of "world_of (step e w)"] rest show ?case
    by simp
qed

lemma playDrone_disabled: "audioContext (eng w) = None \<Longrightarrow> playDrone w = Returned w"
  by (simp add: playDrone_def playNote_disabled playFilteredNoise_disabled)

lemma harmonyStep_disabled:
  "audioContext (eng w) = None \<Longrightarrow> harmonyStep j octave w = Returned (w\<lparr>drawn := Suc (drawn w)\<rparr>)"
  by (simp add: harmonyStep_def playNote_disabled)

lemma playMelodyNote_disabled:
  "audioContext (eng w) = None \<Longrightarrow>
     \<exists>d. snd (playMelodyNote i w) = Returned (w\<lparr>drawn := d\<rparr>)"
proof (cases "isMusicPlaying (eng w)")
  case False
  then have "snd (playMelodyNote i w) = Returned (w\<lparr>drawn := drawn w\<rparr>)"
    by (simp add: playMelodyNote_silent)
  then show ?thesis ..
next
  case True
  assume "audioContext (eng w) = None"
  then have "snd (playMelodyNote i w) = Returned (w\<lparr>drawn := Suc (Suc (Suc (Suc (Suc (drawn w)))))\<rparr>)"
    by (simp add: playMelodyNote_playing [OF True] playNote_disabled harmonyStep_disabled)
  then show ?thesis ..
qed

lemma windTick_disabled:
  "audioContext (eng w) = None \<Longrightarrow> \<exists>d. windTick w = Returned (w\<lparr>drawn := d\<rparr>)"
proof -
  assume off: "audioContext (eng w) = None"
  have "windTick w = Returned (w\<lparr>drawn := Suc (drawn w)\<rparr>) \<or>
        windTick w = Returned (w\<lparr>drawn := Suc (Suc (drawn w))\<rparr>)"
    using off by (simp add: windTick_def mathRandom_def playWind_def playFilteredNoise_disabled)
  then show ?thesis by blast
qed

lemma creakTick_disabled:
  "audioContext (eng w) = None \<Longrightarrow> creakTick w = Returned (w\<lparr>drawn := Suc (drawn w)\<rparr>)"
  by (simp add: creakTick_def mathRandom_def playCreak_disabled)

lemma runCallback_disabled:
  assumes "audioContext (eng w) = None"
  shows "\<exists>d. snd (runCallback cb w) = Returned (w\<lparr>drawn := d\<rparr>)"
proof (cases cb)
  case PlayDrone
  with assms have "snd (runCallback cb w) = Returned (w\<lparr>drawn := drawn w\<rparr>)"
    by (simp add: playDrone_disabled)
  then show ?thesis ..
next
  case (PlayMelodyNote i)
  with playMelodyNote_disabled [OF assms, of i] show ?thesis
    by (simp add: split_def Let_def)
next
  case WindTick
  with windTick_disabled [OF assms] show ?thesis by simp
next
  case CreakTick
  with assms have "snd (runCallback cb w) = Returned (w\<lparr>drawn := Suc (drawn w)\<rparr>)"
    by (simp add: creakTick_disabled)
  then show ?thesis ..
qed

lemma fire_disabled:
  assumes "audioContext (eng w) = None"
  shows "\<exists>w'. fire h w = Returned w' \<and> calls w' = calls w \<and> eng w' = eng w"
proof (cases "map_of (timers w) h")
  case None
  then show ?thesis by (simp add: fire_unknown)
next
  case (Some t)
  obtain cb ms where t: "t = (cb, ms)" by (cases t)
  from runCallback_disabled [OF assms, of cb] obtain d
    where "snd (runCallback cb w) = Returned (w\<lparr>drawn := d\<rparr>)" ..
  with Some show ?thesis
    unfolding t by (simp add: fire_known setCallback_def)
qed

lemma stop_calls:
  "\<exists>w'. stopBackgroundMusic w = Returned w' \<and> calls w' = calls w \<and>
        audioContext (eng w') = audioContext (eng w)"
  by (simp add: stopBackgroundMusic_def fold_clearInterval clearInterval_def Let_def
      split: option.splits)

lemma step_disabled:
  assumes "audioContext (eng w) = None" and "\<not> constructsDevice e"
  shows "\<exists>w'. step e w = Returned w' \<and> calls w' = calls w \<and> audioContext (eng w') = None"
proof (cases e)
  case StopMusic
  with stop_calls [of w] assms show ?thesis by auto
next
  case (Fire h)
  with fire_disabled [OF assms(1), of h] assms show ?thesis by auto
qed (use assms in \<open>simp_all add: startBackgroundMusic_noop playHover_def playClick_def
      playNote_disabled playFilteredNoise_disabled\<close>)

lemma outcomes_disabled:
  assumes "audioContext (eng w) = None" and "\<forall>e \<in> set evs. \<not> constructsDevice e"
  shows "\<forall>out \<in> set (outcomes evs w).
           \<not> throws out \<and> calls (world_of out) = calls w \<and> audioContext (eng (world_of out)) = None"
  using assms
proof (induction evs arbitrary: w)
  case Nil
  then show ?case by simp
next
  case (Cons e evs)
  from Cons.prems have "\<not> constructsDevice e" by simp
  from step_disabled [OF Cons.prems(1) this] obtain w'
    where w': "step e w = Returned w'" "calls w' = calls w" "audioContext (eng w') = None"
    by blast
  from Cons.prems have "\<forall>e \<in> set evs. \<not> constructsDevice e" by simp
  from Cons.IH [OF w'(3) this] w' show ?case
    by simp
qed

lemma step_unavailable:
  assumes off: "audioContext (eng w) = None" and denied: "\<not> contextAvailable w"
    and e: "\<not> grantsAudio e"
  shows "\<exists>w'. step e w = Returned w' \<and> calls w' = calls w \<and>
           audioContext (eng w') = None \<and> \<not> contextAvailable w'"
proof (cases e)
  case Click
  with off denied show ?thesis
    by (simp add: initAudioContext_unavailable)
next
  case KeyDown
  with off denied show ?thesis
    by (simp add: initAudioContext_unavailable)
next
  case Initialize
  with off denied show ?thesis
    by (simp add: initAudioContext_unavailable)
next
  case StopMusic
  have "contextAvailable (world_of (stopBackgroundMusic w)) = contextAvailable w"
    by (simp add: stopBackgroundMusic_def fold_clearInterval clearInterval_def Let_def
        split: option.splits)
  with stop_calls [of w] off denied StopMusic show ?thesis
    by auto
next
  case (Fire h)
  have "contextAvailable (world_of (fire h w)) = contextAvailable w"
  proof (cases "map_of (timers w) h")
    case None
    then show ?thesis by (simp add: fire_unknown)
  next
    case (Some t)
    obtain cb ms where t: "t = (cb, ms)" by (cases t)
    have "contextAvailable (world_of (snd (runCallback cb w))) = contextAvailable w"
      using synthOnly_runCallback [of w cb] by (simp add: synthOnly_def)
    with Some show ?thesis
      unfolding t by (simp add: fire_known world_of_map_outcome setCallback_def)
  qed
  with fire_disabled [OF off, of h] off denied Fire show ?thesis
    by auto
next
  case (AudioPermission b)
  with e off denied show ?thesis by simp
qed (use off denied in \<open>simp_all add: startBackgroundMusic_noop playHover_def playClick_def
      playNote_disabled playFilteredNoise_disabled\<close>)

lemma outcomes_unavailable:
  assumes "audioContext (eng w) = None" and "\<not> contextAvailable w"
    and "\<forall>e \<in> set evs. \<not> grantsAudio e"
  shows "\<forall>out \<in> set (outcomes evs w).
           \<not> throws out \<and> calls (world_of out) = calls w \<and> audioContext (eng (world_of out)) = None"
  using assms
proof (induction evs arbitrary: w)
  case Nil
  then show ?case by simp
next
  case (Cons e evs)
  from Cons.prems have "\<not> grantsAudio e" by simp
  from step_unavailable [OF Cons.prems(1,2) this] obtain w'
    where w': "step e w = Returned w'" "calls w' = calls w" "audioContext (eng w') = None"
      "\<not> contextAvailable w'"
    by blast
  from Cons.prems have "\<forall>e \<in> set evs. \<not> grantsAudio e" by simp
  from Cons.IH [OF w'(3,4) this] w' show ?case
    by simp
qed

lemma advance_phrygian:
  "0 \<le> advance phrygian i d s \<and> advance phrygian i d s \<le> int (length phrygian) - 1"
  by (simp add: advance_def phrygian_def)

lemma tickIndex_range:
  "0 \<le> tickIndex i w \<and> tickIndex i w \<le> int (length phrygian) - 1"
  unfolding tickIndex_def by (rule advance_phrygian)

lemma playMelodyNote_range:
  assumes "0 \<le> i \<and> i \<le> int (length phrygian) - 1"
  shows "0 \<le> fst (playMelodyNote i w) \<and> fst (playMelodyNote i w) \<le> int (length phrygian) - 1"
proof (cases "isMusicPlaying (eng w)")
  case True
  then show ?thesis
    using tickIndex_range [of i w] by (simp add: playMelodyNote_playing)
next
  case False
  with assms show ?thesis by (simp add: playMelodyNote_silent)
qed

lemma runCallback_melody:
  "fst (runCallback (PlayMelodyNote i) w) = PlayMelodyNote (fst (playMelodyNote i w))"
  by (simp add: split_def Let_def)

lemma generatorOf_runCallback: "generatorOf (fst (runCallback cb w)) = generatorOf cb"
  by (cases cb) (simp_all add: split_def Let_def)

lemma timers_fire_unknown:
  "map_of (timers w) h = None \<Longrightarrow> timers (world_of (fire h w)) = timers w"
  by (simp add: fire_unknown)

lemma timers_fire_known:
  assumes "map_of (timers w) h = Some (cb, ms)"
  shows "timers (world_of (fire h w)) =
     map (\<lambda>(h', cb', ms'). if h' = h then (h', fst (runCallback cb w), ms') else (h', cb', ms'))
       (timers w)"
proof -
  have "timers (world_of (snd (runCallback cb w))) = timers w"
    using synthOnly_runCallback [of w cb] by (simp add: synthOnly_def)
  then show ?thesis
    by (simp add: fire_known [OF assms] world_of_map_outcome setCallback_def)
qed

lemma eng_fire: "eng (world_of (fire h w)) = eng w"
proof (cases "map_of (timers w) h")
  case None
  then show ?thesis by (simp add: fire_unknown)
next
  case (Some t)
  obtain cb ms where t: "t = (cb, ms)" by (cases t)
  have "eng (world_of (snd (runCallback cb w))) = eng w"
    using synthOnly_runCallback [of w cb] by (simp add: synthOnly_def)
  with Some show ?thesis
    unfolding t by (simp add: fire_known world_of_map_outcome setCallback_eng)
qed

lemma cursorsInScale_fire:
  assumes "cursorsInScale w"
  shows "cursorsInScale (world_of (fire h w))"
proof (cases "map_of (timers w) h")
  case None
  with assms show ?thesis by (simp add: fire_unknown)
next
  case (Some t)
  obtain cb ms where t: "t = (cb, ms)" by (cases t)
  from Some have live: "(h, cb, ms) \<in> set (timers w)"
    unfolding t by (rule map_of_SomeD)
  have new: "\<forall>i. fst (runCallback cb w) = PlayMelodyNote i \<longrightarrow>
      0 \<le> i \<and> i \<le> int (length phrygian) - 1"
  proof (cases cb)
    case (PlayMelodyNote j)
    with live assms have "0 \<le> j \<and> j \<le> int (length phrygian) - 1"
      by (auto simp: cursorsInScale_def)
    from playMelodyNote_range [OF this, of w] show ?thesis
      unfolding PlayMelodyNote runCallback_melody by simp
  qed simp_all
  show ?thesis
    unfolding cursorsInScale_def timers_fire_known [OF Some [unfolded t]]
    using assms new by (auto simp: cursorsInScale_def split: if_splits)
qed

lemma timers_stop: "set (timers (world_of (stopBackgroundMusic w))) \<subseteq> set (timers w)"
  by (auto simp add: stopBackgroundMusic_def fold_clearInterval clearInterval_def Let_def
      split: option.splits)

lemma stopped_stop: "\<not> isMusicPlaying (eng (world_of (stopBackgroundMusic w)))"
  by (simp add: stopBackgroundMusic_def fold_clearInterval clearInterval_def Let_def
      split: option.splits)

lemma calm_step:
  assumes none: "timers w = []" and idle: "\<not> isMusicPlaying (eng w)" and e: "\<not> startsMusic e"
  shows "timers (world_of (step e w)) = [] \<and> \<not> isMusicPlaying (eng (world_of (step e w)))"
proof (cases e)
  case StopMusic
  with timers_stop [of w] none stopped_stop [of w] show ?thesis by simp
next
  case HoverCue
  with synthOnly_playHover [of w] none idle show ?thesis by (simp add: synthOnly_def)
next
  case ClickCue
  with synthOnly_playClick [of w] none idle show ?thesis by (simp add: synthOnly_def)
next
  case (PlayNote f d t v g)
  with synthOnly_playNote [of w f d t v g] none idle show ?thesis by (simp add: synthOnly_def)
next
  case (PlayFilteredNoise d c v g)
  with synthOnly_playFilteredNoise [of w d c v g] none idle show ?thesis
    by (simp add: synthOnly_def)
next
  case (Fire h)
  with none idle show ?thesis by (simp add: fire_unknown)
qed (use assms in simp_all)

lemma calm_run:
  "timers w = [] \<Longrightarrow> \<not> isMusicPlaying (eng w) \<Longrightarrow> \<forall>e \<in> set later. \<not> startsMusic e \<Longrightarrow>
     timers (run later w) = [] \<and> \<not> isMusicPlaying (eng (run later w))"
proof (induction later arbitrary: w)
  case Nil
  then show ?case by simp
next
  case (Cons e later)
  from Cons.prems have "\<not> startsMusic e" by simp
  from calm_step [OF Cons.prems(1,2) this] Cons.prems(3) Cons.IH [of "world_of (step e w)"]
  show ?case by simp
qed

lemma cursorsInScale_synthOnly: "synthOnly w w' \<Longrightarrow> cursorsInScale w \<Longrightarrow> cursorsInScale w'"
  by (simp add: synthOnly_def cursorsInScale_def)

lemma cursorsInScale_start:
  assumes "cursorsInScale w"
  shows "cursorsInScale (world_of (startBackgroundMusic w))"
proof (cases "isMusicPlaying (eng w) \<or> audioContext (eng w) = None")
  case True
  with assms show ?thesis by (simp add: startBackgroundMusic_noop)
next
  case False
  then have "audioContext (eng w) \<noteq> None" "\<not> isMusicPlaying (eng w)" by simp_all
  from startBackgroundMusic_shape [OF this] assms show ?thesis
    by (auto simp: synthOnly_def cursorsInScale_def phrygian_def)
qed

lemma cursorsInScale_init:
  assumes "cursorsInScale w"
  shows "cursorsInScale (world_of (initAudioContext w))"
proof (cases "audioContext (eng w) = None")
  case False
  with assms show ?thesis by (simp add: initAudioContext_again)
next
  case True
  show ?thesis
  proof (cases "contextAvailable w")
    case False
    with True assms show ?thesis by (simp add: initAudioContext_unavailable)
  next
    case avail: True
    have "cursorsInScale (graphSetup w)"
      using assms by (simp add: cursorsInScale_def graphSetup_def)
    then have "cursorsInScale (world_of (startBackgroundMusic (graphSetup w)))"
      by (rule cursorsInScale_start)
    then show ?thesis
      by (simp add: initAudioContext_available [OF True avail])
  qed
qed

lemma cursorsInScale_step:
  assumes "cursorsInScale w"
  shows "cursorsInScale (world_of (step e w))"
proof (cases e)
  case Click
  have "cursorsInScale (w\<lparr>clickListener := False\<rparr>)"
    using assms by (simp add: cursorsInScale_def)
  with assms Click show ?thesis by (simp add: cursorsInScale_init)
next
  case KeyDown
  have "cursorsInScale (w\<lparr>keydownListener := False\<rparr>)"
    using assms by (simp add: cursorsInScale_def)
  with assms KeyDown show ?thesis by (simp add: cursorsInScale_init)
next
  case Initialize
  with assms show ?thesis by (simp add: cursorsInScale_init)
next
  case StartMusic
  with assms show ?thesis by (simp add: cursorsInScale_start)
next
  case StopMusic
  with assms timers_stop [of w] show ?thesis by (auto simp: cursorsInScale_def)
next
  case HoverCue
  with assms show ?thesis by (simp add: cursorsInScale_synthOnly [OF synthOnly_playHover])
next
  case ClickCue
  with assms show ?thesis by (simp add: cursorsInScale_synthOnly [OF synthOnly_playClick])
next
  case (PlayNote f d t v g)
  with assms show ?thesis by (simp add: cursorsInScale_synthOnly [OF synthOnly_playNote])
next
  case (PlayFilteredNoise d c v g)
  with assms show ?thesis by (simp add: cursorsInScale_synthOnly [OF synthOnly_playFilteredNoise])
next
  case (Fire h)
  with assms show ?thesis by (simp add: cursorsInScale_fire)
next
  case (Elapse dt)
  with assms show ?thesis by (simp add: cursorsInScale_def)
next
  case (AudioPermission b)
  with assms show ?thesis by (simp add: cursorsInScale_def)
qed

lemma cursorsInScale_run: "cursorsInScale w \<Longrightarrow> cursorsInScale (run evs w)"
  by (induction evs arbitrary: w) (simp_all add: cursorsInScale_step)

lemma cursorsInScale_constructor: "cursorsInScale (constructor p)"
  by (simp add: cursorsInScale_def constructor_def)

lemma map_of_setCallback:
  "map_of (map (\<lambda>(h', cb', ms'). if h' = h then (h', cb, ms') else (h', cb', ms')) ts) k =
     (case map_of ts k of
        None \<Rightarrow> None
      | Some (cb', ms') \<Rightarrow> if k = h then Some (cb, ms') else Some (cb', ms'))"
  by (induction ts) (auto split: option.splits if_splits)

lemma scheduled_synthOnly: "synthOnly w w' \<Longrightarrow> scheduled h g ms w \<Longrightarrow> scheduled h g ms w'"
  by (simp add: synthOnly_def scheduled_def)

lemma scheduled_fire:
  assumes "scheduled h g ms w"
  shows "scheduled h g ms (world_of (fire k w))"
proof (cases "map_of (timers w) k")
  case None
  with assms show ?thesis by (simp add: fire_unknown)
next
  case (Some t)
  obtain cb ms' where t: "t = (cb, ms')" by (cases t)
  from assms obtain cb0 where live: "map_of (timers w) h = Some (cb0, ms)"
    and gen: "generatorOf cb0 = g" and playing: "isMusicPlaying (eng w)"
    by (auto simp: scheduled_def split: option.splits)
  show ?thesis
  proof (cases "h = k")
    case True
    with live Some t have "cb0 = cb" "ms' = ms" by simp_all
    with True live gen playing show ?thesis
      unfolding scheduled_def eng_fire timers_fire_known [OF Some [unfolded t]] map_of_setCallback
      by (simp add: generatorOf_runCallback)
  next
    case False
    with live gen playing show ?thesis
      unfolding scheduled_def eng_fire timers_fire_known [OF Some [unfolded t]] map_of_setCallback
      by simp
  qed
qed

lemma scheduled_init:
  assumes "scheduled h g ms w"
  shows "scheduled h g ms (world_of (initAudioContext w))"
proof (cases "audioContext (eng w) = None")
  case False
  with assms show ?thesis by (simp add: initAudioContext_again)
next
  case True
  show ?thesis
  proof (cases "contextAvailable w")
    case False
    with True assms show ?thesis by (simp add: initAudioContext_unavailable)
  next
    case avail: True
    have "scheduled h g ms (graphSetup w)"
      using assms by (simp add: scheduled_def graphSetup_def)
    moreover from this have "isMusicPlaying (eng (graphSetup w))"
      by (simp add: scheduled_def)
    ultimately show ?thesis
      by (simp add: initAudioContext_available [OF True avail] startBackgroundMusic_noop)
  qed
qed

lemma scheduled_step:
  assumes "scheduled h g ms w" and "\<not> stopsMusic e"
  shows "scheduled h g ms (world_of (step e w))"
proof (cases e)
  case Click
  have "scheduled h g ms (w\<lparr>clickListener := False\<rparr>)"
    using assms by (simp add: scheduled_def)
  with assms Click show ?thesis by (simp add: scheduled_init)
next
  case KeyDown
  have "scheduled h g ms (w\<lparr>keydownListener := False\<rparr>)"
    using assms by (simp add: scheduled_def)
  with assms KeyDown show ?thesis by (simp add: scheduled_init)
next
  case Initialize
  with assms show ?thesis by (simp add: scheduled_init)
next
  case StartMusic
  from assms have "isMusicPlaying (eng w)" by (simp add: scheduled_def)
  with assms StartMusic show ?thesis by (simp add: startBackgroundMusic_noop)
next
  case StopMusic
  with assms show ?thesis by simp
next
  case HoverCue
  with assms show ?thesis by (simp add: scheduled_synthOnly [OF synthOnly_playHover])
next
  case ClickCue
  with assms show ?thesis by (simp add: scheduled_synthOnly [OF synthOnly_playClick])
next
  case (PlayNote f d t v g)
  with assms show ?thesis by (simp add: scheduled_synthOnly [OF synthOnly_playNote])
next
  case (PlayFilteredNoise d c v g)
  with assms show ?thesis by (simp add: scheduled_synthOnly [OF synthOnly_playFilteredNoise])
next
  case (Fire k)
  with assms show ?thesis by (simp add: scheduled_fire)
next
  case (Elapse dt)
  with assms show ?thesis by (simp add: scheduled_def)
next
  case (AudioPermission b)
  with assms show ?thesis by (simp add: scheduled_def)
qed

lemma scheduled_run:
  "scheduled h g ms w \<Longrightarrow> \<forall>e \<in> set evs. \<not> stopsMusic e \<Longrightarrow> scheduled h g ms (run evs w)"
  by (induction evs arbitrary: w) (simp_all add: scheduled_step)

lemma sameDevice_refl: "sameDevice w w"
  by (simp add: sameDevice_def)

lemma sameDevice_synthOnly: "synthOnly w w' \<Longrightarrow> sameDevice w w'"
  by (simp add: synthOnly_def sameDevice_def)

lemma sameDevice_start: "sameDevice w (world_of (startBackgroundMusic w))"
proof (cases "isMusicPlaying (eng w) \<or> audioContext (eng w) = None")
  case True
  then show ?thesis by (simp add: startBackgroundMusic_noop sameDevice_refl)
next
  case False
  then have "audioContext (eng w) \<noteq> None" "\<not> isMusicPlaying (eng w)" by simp_all
  from startBackgroundMusic_shape [OF this] show ?thesis
    by (auto simp: synthOnly_def sameDevice_def)
qed

lemma sameDevice_stop: "sameDevice w (world_of (stopBackgroundMusic w))"
  by (simp add: stopBackgroundMusic_def fold_clearInterval clearInterval_def Let_def sameDevice_def
      split: option.splits)

lemma sameDevice_step:
  assumes "audioContext (eng w) \<noteq> None"
  shows "sameDevice w (world_of (step e w))"
proof (cases e)
  case Click
  with assms show ?thesis by (simp add: initAudioContext_again sameDevice_def)
next
  case KeyDown
  with assms show ?thesis by (simp add: initAudioContext_again sameDevice_def)
next
  case Initialize
  with assms show ?thesis by (simp add: initAudioContext_again sameDevice_refl)
next
  case StartMusic
  then show ?thesis by (simp add: sameDevice_start)
next
  case StopMusic
  then show ?thesis by (simp add: sameDevice_stop)
next
  case HoverCue
  then show ?thesis by (simp add: sameDevice_synthOnly [OF synthOnly_playHover])
next
  case ClickCue
  then show ?thesis by (simp add: sameDevice_synthOnly [OF synthOnly_playClick])
next
  case (PlayNote f d t v g)
  then show ?thesis by (simp add: sameDevice_synthOnly [OF synthOnly_playNote])
next
  case (PlayFilteredNoise d c v g)
  then show ?thesis by (simp add: sameDevice_synthOnly [OF synthOnly_playFilteredNoise])
next
  case (Fire h)
  then show ?thesis by (simp add: eng_fire sameDevice_def)
next
  case (Elapse dt)
  then show ?thesis by (simp add: sameDevice_def)
next
  case (AudioPermission b)
  then show ?thesis by (simp add: sameDevice_def)
qed

lemma sameDevice_run:
  "audioContext (eng w) \<noteq> None \<Longrightarrow> sameDevice w (run evs w)"
proof (induction evs arbitrary: w)
  case Nil
  show ?case by (simp add: sameDevice_refl)
next
  case (Cons e evs)
  from sameDevice_step [OF Cons.prems, of e]
  have one: "sameDevice w (world_of (step e w))" .
  with Cons.prems have "audioContext (eng (world_of (step e w))) \<noteq> None"
    by (simp add: sameDevice_def)
  from Cons.IH [OF this] one show ?case
    by (simp add: sameDevice_def)
qed

lemma fillNoise_data_eng [simp]:
  "fst (fillNoise i bufferSize data (w\<lparr>eng := e\<rparr>)) = fst (fillNoise i bufferSize data w)"
  by (rule fillNoise_data [rule_format]) simp

lemma droneCalls_cong:
  assumes "nodes w' = nodes w" and "currentTime w' = currentTime w"
    and "rng w' = rng w" and "drawn w' = drawn w"
  shows "droneCalls ctx bus w' = droneCalls ctx bus w"
proof -
  have "fst (fillNoise 0 b d (w'\<lparr>nodes := n\<rparr>)) = fst (fillNoise 0 b d (w\<lparr>nodes := n\<rparr>))" for b d n
    using assms by (intro fillNoise_data [rule_format]) simp
  with assms show ?thesis
    by (simp add: droneCalls_def noteCalls_def noiseCalls_def)
qed

lemma droneCalls_eng [simp]: "droneCalls ctx bus (w\<lparr>eng := e\<rparr>) = droneCalls ctx bus w"
  by (rule droneCalls_cong) simp_all

lemma first_click:
  assumes "audioContext (eng w) = None" and "contextAvailable w" and "\<not> isMusicPlaying (eng w)"
  shows "initAudioContext w =
     Returned (w\<lparr>eng := (eng w)\<lparr>audioContext := Some (AudioContext (deviceSampleRate w)),
                    masterGain := Some (Node (nodes w)),
                    musicGain := Some (Node (nodes w + 1)),
                    sfxGain := Some (Node (nodes w + 2)),
                    isMusicPlaying := True,
                    musicInterval := Some (lastHandle w + 2),
                    ambientIntervals := ambientIntervals (eng w) @
                      [lastHandle w + 1, lastHandle w + 3, lastHandle w + 4]\<rparr>,
                timers := timers w @
                  [(lastHandle w + 1, PlayDrone, 7500),
                   (lastHandle w + 2, PlayMelodyNote 0,
                      3000 + rng w (drawn w + nat \<lceil>deviceSampleRate w * 8\<rceil>) * 4000),
                   (lastHandle w + 3, WindTick, 8000),
                   (lastHandle w + 4, CreakTick, 12000)],
                lastHandle := lastHandle w + 4,
                calls := calls (graphSetup w) @
                  droneCalls (AudioContext (deviceSampleRate w)) (Node (nodes w + 1))
                    (w\<lparr>nodes := nodes w + 3\<rparr>),
                nodes := nodes w + 12,
                drawn := Suc (drawn w + nat \<lceil>deviceSampleRate w * 8\<rceil>)\<rparr>)"
proof -
  have ready: "audioContext (eng (graphSetup w)) = Some (AudioContext (deviceSampleRate w))"
    "musicGain (eng (graphSetup w)) = Some (Node (nodes w + 1))"
    "\<not> isMusicPlaying (eng (graphSetup w))"
    using assms(3) by (simp_all add: graphSetup_def)
  have drone: "droneCalls c b (graphSetup w) = droneCalls c b (w\<lparr>nodes := nodes w + 3\<rparr>)" for c b
    by (rule droneCalls_cong) (simp_all add: graphSetup_def)
  show ?thesis
    unfolding initAudioContext_available [OF assms(1,2)] startBackgroundMusic_ready [OF ready]
      droneCalls_eng drone
    by (simp add: graphSetup_def)
qed

lemma sampleWorld_fresh:
  "audioContext (eng (constructor samplePage)) = None"
  "contextAvailable (constructor samplePage)"
  "\<not> isMusicPlaying (eng (constructor samplePage))"
  by (simp_all add: constructor_def samplePage_def)

lemma sampleWorld_eng:
  "eng sampleWorld =
     \<lparr>audioContext = Some (AudioContext 2), masterGain = Some (Node 0),
      musicGain = Some (Node 1), sfxGain = Some (Node 2), isEnabled = True,
      isMusicPlaying = True, musicInterval = Some 2, ambientIntervals = [1, 3, 4],
      config = \<lparr>masterVolume = 0.4, musicVolume = 0.15, sfxVolume = 0.3\<rparr>\<rparr>"
  unfolding sampleWorld_def run.simps step.simps first_click [OF sampleWorld_fresh] world_of.simps
  by (simp add: constructor_def samplePage_def)

lemma sampleWorld_timers:
  "timers sampleWorld =
     [(1, PlayDrone, 7500), (2, PlayMelodyNote 0, 5800), (3, WindTick, 8000),
      (4, CreakTick, 12000)]"
  unfolding sampleWorld_def run.simps step.simps first_click [OF sampleWorld_fresh] world_of.simps
  by (simp add: constructor_def samplePage_def)

lemma sampleWorld_platform:
  "rng sampleWorld = (\<lambda>k. 7 / 10)" "nodes sampleWorld = 12" "currentTime sampleWorld = 0"
  "lastHandle sampleWorld = 4" "drawn sampleWorld = 17"
  unfolding sampleWorld_def run.simps step.simps first_click [OF sampleWorld_fresh] world_of.simps
  by (simp_all add: constructor_def samplePage_def)

lemma logGrows_synthOnly: "synthOnly w w' \<Longrightarrow> logGrows w w'"
  by (simp add: synthOnly_def)

lemma logGrows_cong:
  assumes "logGrows w w'"
    and "calls v = calls w" and "nodes v = nodes w"
    and "calls v' = calls w'" and "nodes v' = nodes w'"
  shows "logGrows v v'"
  using assms by (simp add: logGrows_def)

lemma logGrows_start: "logGrows w (world_of (startBackgroundMusic w))"
proof (cases "isMusicPlaying (eng w) \<or> audioContext (eng w) = None")
  case True
  then show ?thesis by (simp add: startBackgroundMusic_noop logGrows_refl)
next
  case False
  then have "audioContext (eng w) \<noteq> None" "\<not> isMusicPlaying (eng w)" by simp_all
  from startBackgroundMusic_shape [OF this] show ?thesis
  proof (elim disjE exE conjE)
    fix e w2
    assume "startBackgroundMusic w = Thrown e w2"
      and "synthOnly (w\<lparr>eng := (eng w)\<lparr>isMusicPlaying := True\<rparr>\<rparr>) w2"
    then show ?thesis
      by (auto simp: synthOnly_def elim: logGrows_cong)
  next
    fix w2
    assume "synthOnly (w\<lparr>eng := (eng w)\<lparr>isMusicPlaying := True\<rparr>\<rparr>) w2"
      and "startBackgroundMusic w =
              Returned (w2\<lparr>eng := (eng w)\<lparr>isMusicPlaying := True,
                              musicInterval := Some (lastHandle w + 2),
                              ambientIntervals := ambientIntervals (eng w) @
                                [lastHandle w + 1, lastHandle w + 3, lastHandle w + 4]\<rparr>,
                          timers := timers w @
                            [(lastHandle w + 1, PlayDrone, 7500),
                             (lastHandle w + 2, PlayMelodyNote 0, 3000 + rng w (drawn w2) * 4000),
                             (lastHandle w + 3, WindTick, 8000),
                             (lastHandle w + 4, CreakTick, 12000)],
                          lastHandle := lastHandle w + 4,
                          drawn := Suc (drawn w2)\<rparr>)"
    then show ?thesis
      by (auto simp: synthOnly_def elim: logGrows_cong)
  qed
qed

lemma logGrows_stop: "logGrows w (world_of (stopBackgroundMusic w))"
  by (simp add: stopBackgroundMusic_def fold_clearInterval clearInterval_def Let_def logGrows_def
      split: option.splits)

lemma logGrows_fire: "logGrows w (world_of (fire h w))"
proof (cases "map_of (timers w) h")
  case None
  then show ?thesis by (simp add: fire_unknown logGrows_refl)
next
  case (Some t)
  obtain cb ms where t: "t = (cb, ms)" by (cases t)
  have "logGrows w (world_of (snd (runCallback cb w)))"
    using synthOnly_runCallback by (rule logGrows_synthOnly)
  then show ?thesis
    using Some unfolding t
    by (simp add: fire_known world_of_map_outcome)
      (erule logGrows_cong; simp add: setCallback_def)
qed

lemma logGrows_graphSetup: "logGrows w (graphSetup w)"
  by (simp add: logGrows_def graphSetup_def freshCalls_def)

lemma logGrows_init: "logGrows w (world_of (initAudioContext w))"
proof (cases "audioContext (eng w) = None")
  case False
  then show ?thesis by (simp add: initAudioContext_again logGrows_refl)
next
  case True
  show ?thesis
  proof (cases "contextAvailable w")
    case False
    with True show ?thesis by (simp add: initAudioContext_unavailable logGrows_refl)
  next
    case avail: True
    have "logGrows w (world_of (startBackgroundMusic (graphSetup w)))"
      using logGrows_graphSetup logGrows_start by (rule logGrows_trans)
    then show ?thesis
      by (simp add: initAudioContext_available [OF True avail])
  qed
qed

lemma logGrows_step: "logGrows w (world_of (step e w))"
proof (cases e)
  case Click
  have "logGrows (w\<lparr>clickListener := False\<rparr>) (world_of (initAudioContext (w\<lparr>clickListener := False\<rparr>)))"
    by (rule logGrows_init)
  then have "logGrows w (world_of (initAudioContext (w\<lparr>clickListener := False\<rparr>)))"
    by (rule logGrows_cong) simp_all
  with Click show ?thesis by (simp add: logGrows_refl)
next
  case KeyDown
  have "logGrows (w\<lparr>keydownListener := False\<rparr>) (world_of (initAudioContext (w\<lparr>keydownListener := False\<rparr>)))"
    by (rule logGrows_init)
  then have "logGrows w (world_of (initAudioContext (w\<lparr>keydownListener := False\<rparr>)))"
    by (rule logGrows_cong) simp_all
  with KeyDown show ?thesis by (simp add: logGrows_refl)
next
  case Initialize
  then show ?thesis by (simp add: logGrows_init)
next
  case StartMusic
  then show ?thesis by (simp add: logGrows_start)
next
  case StopMusic
  then show ?thesis by (simp add: logGrows_stop)
next
  case HoverCue
  then show ?thesis by (simp add: logGrows_synthOnly [OF synthOnly_playHover])
next
  case ClickCue
  then show ?thesis by (simp add: logGrows_synthOnly [OF synthOnly_playClick])
next
  case (PlayNote f d t v g)
  then show ?thesis by (simp add: logGrows_synthOnly [OF synthOnly_playNote])
next
  case (PlayFilteredNoise d c v g)
  then show ?thesis by (simp add: logGrows_synthOnly [OF synthOnly_playFilteredNoise])
next
  case (Fire h)
  then show ?thesis by (simp add: logGrows_fire)
next
  case (Elapse dt)
  then show ?thesis by (simp add: logGrows_def)
next
  case (AudioPermission b)
  then show ?thesis by (simp add: logGrows_def)
qed

lemma connections_append: "connections (xs @ ys) = connections xs @ connections ys"
  by (simp add: connections_def)

lemma feeds_append:
  "map_of (connections (xs @ ys)) n =
     (case map_of (connections xs) n of
        None \<Rightarrow> map_of (connections ys) n
      | Some m \<Rightarrow> Some m)"
  by (simp add: connections_append map_add_def split: option.splits)

lemma onsetGain_append: "onsetGain (xs @ ys) n = foldl (gainStep n) (onsetGain xs n) ys"
  by (simp add: onsetGain_def)

lemma gain_untouched:
  "\<forall>c \<in> set cs. n \<notin> set (touched c) \<Longrightarrow> foldl (gainStep n) g cs = g"
proof (induction cs arbitrary: g)
  case Nil
  show ?case by simp
next
  case (Cons c cs)
  then have "gainStep n g c = g"
    by (cases c) auto
  with Cons show ?case by simp
qed

lemma feeds_untouched:
  "\<forall>c \<in> set cs. n \<notin> set (touched c) \<Longrightarrow> map_of (connections cs) n = None"
proof (induction cs)
  case Nil
  show ?case by (simp add: connections_def)
next
  case (Cons c cs)
  then have "map_of (connections cs) n = None" by simp
  moreover have "connections (c # cs) = connections [c] @ connections cs"
    using connections_append [of "[c]" cs] by simp
  moreover from Cons.prems have "map_of (connections [c]) n = None"
    by (cases c) (auto simp: connections_def)
  ultimately show ?case
    by (simp add: map_add_def)
qed

lemma freshCalls_below:
  "freshCalls lo hi cs \<Longrightarrow> i < lo \<Longrightarrow> \<forall>c \<in> set cs. Node i \<notin> set (touched c)"
  by (fastforce simp: freshCalls_def)

lemma freshCalls_above:
  "freshCalls lo hi cs \<Longrightarrow> hi \<le> i \<Longrightarrow> \<forall>c \<in> set cs. Node i \<notin> set (touched c)"
  by (fastforce simp: freshCalls_def)

lemma graphReady_grows:
  assumes ready: "graphReady cfg w" and grows: "logGrows w w'" and same: "sameDevice w w'"
  shows "graphReady cfg w'"
proof -
  from grows obtain cs where cs: "calls w' = calls w @ cs"
    and fresh: "freshCalls (nodes w) (nodes w') cs" and le: "nodes w \<le> nodes w'"
    by (auto simp: logGrows_def)
  from ready have three: "3 \<le> nodes w" and tidy: "freshCalls 0 (nodes w) (calls w)"
    by (simp_all add: graphReady_def)
  have keep: "\<forall>c \<in> set cs. Node i \<notin> set (touched c)" if "i < 3" for i
    using fresh by (rule freshCalls_below) (use that three in simp)
  have gains: "onsetGain (calls w') (Node i) = onsetGain (calls w) (Node i)" if "i < 3" for i
    unfolding cs onsetGain_append by (rule gain_untouched) (rule keep [OF that])
  have feeds: "map_of (connections (calls w')) n = Some m"
    if "map_of (connections (calls w)) n = Some m" for n m
    unfolding cs feeds_append using that by simp
  have "freshCalls 0 (nodes w') (calls w')"
    unfolding cs using tidy fresh _ le by (rule freshCalls_append) simp
  with ready same three le gains feeds show ?thesis
    by (simp add: graphReady_def sameDevice_def)
qed

lemma graphReady_step:
  assumes "graphReady cfg w"
  shows "graphReady cfg (world_of (step e w))"
proof -
  from assms have "audioContext (eng w) \<noteq> None"
    by (simp add: graphReady_def)
  then have "sameDevice w (world_of (step e w))"
    by (rule sameDevice_step)
  with assms logGrows_step show ?thesis
    by (rule graphReady_grows)
qed

lemma graphReady_run: "graphReady cfg w \<Longrightarrow> graphReady cfg (run evs w)"
  by (induction evs arbitrary: w) (simp_all add: graphReady_step)

lemma graphReady_graphSetup:
  assumes "calls w = []" and "nodes w = 0"
  shows "graphReady (config (eng w)) (graphSetup w)"
  using assms
  by (simp add: graphReady_def graphSetup_def freshCalls_def connections_def onsetGain_def)

lemma graphReady_first_click:
  assumes "audioContext (eng w) = None" and "contextAvailable w"
    and "calls w = []" and "nodes w = 0"
  shows "graphReady (config (eng w)) (world_of (initAudioContext w))"
proof -
  have "graphReady (config (eng w)) (graphSetup w)"
    using assms(3,4) by (rule graphReady_graphSetup)
  then have "graphReady (config (eng w)) (world_of (startBackgroundMusic (graphSetup w)))"
    using logGrows_start sameDevice_start by (rule graphReady_grows)
  then show ?thesis
    by (simp add: initAudioContext_available [OF assms(1,2)])
qed

lemma note_gain:
  assumes ready: "graphReady cfg w"
    and bus: "bus = Node 0 \<or> bus = Node (Suc 0) \<or> bus = Node (Suc (Suc 0))"
  shows "\<exists>w'. playNote freq duration type volume (Some bus) w = Returned w' \<and>
     effectiveGain (calls w') (Node (nodes w)) =
       (case volume of None \<Rightarrow> 0.1 | Some v \<Rightarrow> v) *
       (if bus = Node 0 then masterVolume cfg
        else if bus = Node (Suc 0) then musicVolume cfg * masterVolume cfg
        else sfxVolume cfg * masterVolume cfg)"
proof -
  let ?osc = "Node (nodes w)"
  let ?gain = "Node (Suc (nodes w))"
  let ?new = "noteCalls freq duration type volume w @
      [Connect ?gain bus, Start ?osc, Stop ?osc (currentTime w + duration)]"
  let ?all = "calls w @ ?new"
  from ready have ctx: "audioContext (eng w) \<noteq> None" and three: "3 \<le> nodes w"
    and tidy: "freshCalls 0 (nodes w) (calls w)"
    by (simp_all add: graphReady_def)
  have played: "playNote freq duration type volume (Some bus) w =
      Returned (w\<lparr>calls := ?all, nodes := Suc (Suc (nodes w))\<rparr>)"
    using playNote_bus [OF ctx] by simp
  have old: "\<forall>c \<in> set (calls w). Node k \<notin> set (touched c)" if "nodes w \<le> k" for k
    using tidy that by (rule freshCalls_above)
  have osc_feed: "map_of (connections ?all) ?osc = Some ?gain"
    unfolding feeds_append feeds_untouched [OF old [OF order_refl]]
    by (simp add: connections_def noteCalls_def)
  have gain_feed: "map_of (connections ?all) ?gain = Some bus"
    unfolding feeds_append feeds_untouched [OF old [of "Suc (nodes w)"], simplified]
    by (simp add: connections_def noteCalls_def)
  have osc_gain: "onsetGain ?all ?osc = 1"
    unfolding onsetGain_append
    by (simp add: noteCalls_def) (simp add: onsetGain_def gain_untouched [OF old [OF order_refl]])
  have gain_gain: "onsetGain ?all ?gain = (case volume of None \<Rightarrow> 0.1 | Some v \<Rightarrow> v)"
    unfolding onsetGain_append by (simp add: noteCalls_def)
  have quiet: "\<forall>c \<in> set ?new. Node k \<notin> set (touched c)" if "k < 3" for k
    using that three by (auto simp: noteCalls_def)
  have bus_gain: "onsetGain ?all (Node k) = onsetGain (calls w) (Node k)" if "k < 3" for k
    unfolding onsetGain_append by (rule gain_untouched) (rule quiet [OF that])
  have bus_feed: "map_of (connections ?all) (Node k) = map_of (connections (calls w)) (Node k)"
    if "k < 3" for k
  proof -
    have "map_of (connections ?new) (Node k) = None"
      by (rule feeds_untouched) (rule quiet [OF that])
    then show ?thesis
      by (subst feeds_append) (simp split: option.splits)
  qed
  define L where "L = ?all"
  have master: "outputGain (Suc f) L (Node 0) = masterVolume cfg" for f
    unfolding L_def using ready bus_gain [of 0] bus_feed [of 0] by (simp add: graphReady_def)
  have music: "outputGain (Suc (Suc f)) L (Node (Suc 0)) = musicVolume cfg * masterVolume cfg"
    for f
    using ready bus_gain [of "Suc 0"] bus_feed [of "Suc 0"] master [of f]
    unfolding L_def by (simp add: graphReady_def)
  have sfx: "outputGain (Suc (Suc f)) L (Node (Suc (Suc 0))) = sfxVolume cfg * masterVolume cfg"
    for f
    using ready bus_gain [of "Suc (Suc 0)"] bus_feed [of "Suc (Suc 0)"] master [of f]
    unfolding L_def by (simp add: graphReady_def numeral_2_eq_2)
  have fuel: "length L = Suc (Suc (Suc (Suc (length (calls w) + 6))))"
    unfolding L_def by (simp add: noteCalls_def)
  have hop1: "outputGain (Suc f) L ?osc = 1 * outputGain f L ?gain" for f
    unfolding L_def by (simp only: outputGain.simps osc_feed osc_gain option.case)
  have hop2: "outputGain (Suc f) L ?gain =
      (case volume of None \<Rightarrow> 0.1 | Some v \<Rightarrow> v) * outputGain f L bus" for f
    unfolding L_def by (simp only: outputGain.simps gain_feed gain_gain option.case)
  have "effectiveGain L ?osc =
      1 * ((case volume of None \<Rightarrow> 0.1 | Some v \<Rightarrow> v) *
        outputGain (Suc (Suc (length (calls w) + 6))) L bus)"
    by (simp only: effectiveGain_def fuel hop1 hop2)
  also have "outputGain (Suc (Suc (length (calls w) + 6))) L bus =
      (if bus = Node 0 then masterVolume cfg
        else if bus = Node (Suc 0) then musicVolume cfg * masterVolume cfg
        else sfxVolume cfg * masterVolume cfg)"
  proof -
    consider "bus = Node 0" | "bus = Node (Suc 0)" | "bus = Node (Suc (Suc 0))"
      using bus by blast
    then show ?thesis
    proof cases
      case 1
      show ?thesis unfolding 1 by (simp only: master) simp
    next
      case 2
      show ?thesis unfolding 2 by (simp only: music) simp
    next
      case 3
      show ?thesis unfolding 3 by (simp only: sfx) simp
    qed
  qed
  finally have "effectiveGain ?all ?osc =
      (case volume of None \<Rightarrow> 0.1 | Some v \<Rightarrow> v) *
      (if bus = Node 0 then masterVolume cfg
        else if bus = Node (Suc 0) then musicVolume cfg * masterVolume cfg
        else sfxVolume cfg * masterVolume cfg)"
    unfolding L_def by simp
  with played show ?thesis
    by simp
qed

lemma logGrows_run: "logGrows w (run evs w)"
proof (induction evs arbitrary: w)
  case Nil
  show ?case by (simp add: logGrows_refl)
next
  case (Cons e evs)
  have "logGrows w (world_of (step e w))"
    by (rule logGrows_step)
  then show ?case
    using Cons.IH [of "world_of (step e w)"] by (simp add: logGrows_trans)
qed

lemma playNote_fallback:
  assumes "masterGain (eng w) = Some master"
  shows "playNote freq duration type volume None w =
     playNote freq duration type volume (Some master) w"
proof (cases "audioContext (eng w)")
  case None
  then show ?thesis by (simp add: playNote_disabled)
next
  case (Some ctx)
  have "orElse None (masterGain (eng w)) = Some master"
    "orElse (Some master) (masterGain (eng w)) = Some master"
    using assms by (simp_all add: orElse_def)
  then show ?thesis
    by (simp only: playNote_routed [OF Some])
qed

lemma advance_range:
  "scale \<noteq> [] \<Longrightarrow> 0 \<le> advance scale i d s \<and> advance scale i d s \<le> int (length scale) - 1"
  by (cases scale) (auto simp: advance_def)

lemma advances_snoc:
  "advances scale i (moves @ [(d, s)]) = advance scale (advances scale i moves) d s"
  by (simp add: advances_def)

lemma advances_range:
  assumes "scale \<noteq> []" and "0 \<le> i" and "i \<le> int (length scale) - 1"
  shows "0 \<le> advances scale i moves \<and> advances scale i moves \<le> int (length scale) - 1"
proof (induction moves rule: rev_induct)
  case Nil
  from assms show ?case by (simp add: advances_def)
next
  case (snoc m moves)
  obtain d s where m: "m = (d, s)" by (cases m)
  show ?case unfolding m advances_snoc using advance_range [OF assms(1)] by blast
qed

lemma advances_up:
  assumes "scale \<noteq> []"
  shows "advances scale 0 (replicate n (1, 2)) = min (int (length scale) - 1) (2 * int n)"
proof (induction n)
  case 0
  from assms show ?case by (cases scale) (simp_all add: advances_def)
next
  case (Suc n)
  have "replicate (Suc n) (1::int, 2::int) = replicate n (1, 2) @ [(1, 2)]"
    by (simp add: replicate_append_same)
  then have "advances scale 0 (replicate (Suc n) (1, 2))
      = advance scale (advances scale 0 (replicate n (1, 2))) 1 2"
    by (simp only: advances_snoc)
  also have "\<dots> = advance scale (min (int (length scale) - 1) (2 * int n)) 1 2"
    by (simp only: Suc.IH)
  also have "\<dots> = min (int (length scale) - 1) (2 * int (Suc n))"
    using assms by (cases scale) (auto simp: advance_def)
  finally show ?case .
qed

lemma floor_times_three:
  fixes r :: real
  assumes "0 \<le> r" and "r < 1"
  shows "\<lfloor>r * 3\<rfloor> = 0 \<or> \<lfloor>r * 3\<rfloor> = 1 \<or> \<lfloor>r * 3\<rfloor> = 2"
proof -
  have "0 \<le> \<lfloor>r * 3\<rfloor>" using assms by simp
  moreover have "\<lfloor>r * 3\<rfloor> < 3" using assms by (simp add: floor_less_iff)
  ultimately show ?thesis by linarith
qed

lemma periods_fire:
  "map (\<lambda>(h, cb, ms). (h, ms)) (timers (world_of (fire k v))) =
     map (\<lambda>(h, cb, ms). (h, ms)) (timers v)"
proof (cases "map_of (timers v) k")
  case None
  then show ?thesis by (simp add: fire_unknown)
next
  case (Some t)
  obtain cb ms where t: "t = (cb, ms)" by (cases t)
  show ?thesis
    unfolding timers_fire_known [OF Some [unfolded t]]
    by (simp add: split_def comp_def)
qed

lemma generatorOf_melody: "generatorOf cb = PlayMelodyNote 0 \<Longrightarrow> \<exists>j. cb = PlayMelodyNote j"
  by (cases cb) simp_all

lemma generatorOf_drone: "generatorOf cb = PlayDrone \<Longrightarrow> cb = PlayDrone"
  by (cases cb) simp_all

lemma constructor_fresh:
  assumes "pageAudio p"
  shows "audioContext (eng (constructor p)) = None" "contextAvailable (constructor p)"
    "\<not> isMusicPlaying (eng (constructor p))"
  using assms by (simp_all add: constructor_def)

lemma fillNoise_nth:
  "k < length data \<longrightarrow>
     fst (fillNoise i bufferSize data w) ! k =
       (if i \<le> k \<and> real k < bufferSize then rng w (drawn w + (k - i)) * 2 - 1 else data ! k)"
proof (induction i bufferSize data w rule: fillNoise.induct)
  case (1 i bufferSize data w)
  show ?case
  proof (cases "real i < bufferSize")
    case True
    let ?data = "data[i := rng w (drawn w) * 2 - 1]"
    let ?w = "w\<lparr>drawn := Suc (drawn w)\<rparr>"
    have unfold: "fillNoise i bufferSize data w = fillNoise (Suc i) bufferSize ?data ?w"
      using True by (subst fillNoise.simps) (simp add: mathRandom_def)
    have eq: "(rng w (drawn w), ?w) = mathRandom w"
      by (simp add: mathRandom_def)
    have rest: "k < length ?data \<longrightarrow>
        fst (fillNoise (Suc i) bufferSize ?data ?w) ! k =
          (if Suc i \<le> k \<and> real k < bufferSize then rng ?w (drawn ?w + (k - Suc i)) * 2 - 1
           else ?data ! k)"
      by (rule "1.IH" [OF True refl eq])
    show ?thesis
    proof
      assume k: "k < length data"
      consider "k < i" | "k = i" | "i < k" by linarith
      then show "fst (fillNoise i bufferSize data w) ! k =
          (if i \<le> k \<and> real k < bufferSize then rng w (drawn w + (k - i)) * 2 - 1 else data ! k)"
      proof cases
        case 1
        with rest k show ?thesis unfolding unfold by simp
      next
        case 2
        with rest k True show ?thesis unfolding unfold by simp
      next
        case 3
        then have "drawn w + (k - i) = Suc (drawn w + (k - Suc i))" by simp
        with 3 rest k show ?thesis unfolding unfold by simp
      qed
    qed
  next
    case False
    have "fillNoise i bufferSize data w = (data, w)"
      using False by (subst fillNoise.simps) (simp only: if_False)
    moreover have "\<not> (i \<le> k \<and> real k < bufferSize)"
      using False by auto
    ultimately show ?thesis by auto
  qed
qed

lemma fillNoise_samples:
  "fst (fillNoise 0 bufferSize (replicate (nat \<lfloor>bufferSize\<rfloor>) 0) w) =
     map (\<lambda>k. rng w (drawn w + k) * 2 - 1) [0..<nat \<lfloor>bufferSize\<rfloor>]"
proof (rule nth_equalityI)
  show "length (fst (fillNoise 0 bufferSize (replicate (nat \<lfloor>bufferSize\<rfloor>) 0) w)) =
      length (map (\<lambda>k. rng w (drawn w + k) * 2 - 1) [0..<nat \<lfloor>bufferSize\<rfloor>])"
    by (simp add: fillNoise_length)
next
  fix k
  assume "k < length (fst (fillNoise 0 bufferSize (replicate (nat \<lfloor>bufferSize\<rfloor>) 0) w))"
  then have k: "k < nat \<lfloor>bufferSize\<rfloor>"
    by (simp add: fillNoise_length)
  then have "int k + 1 \<le> \<lfloor>bufferSize\<rfloor>"
    by simp
  then have "real_of_int (int k + 1) \<le> bufferSize"
    by (simp only: le_floor_iff)
  then have inside: "real k < bufferSize"
    by simp
  from k have "fst (fillNoise 0 bufferSize (replicate (nat \<lfloor>bufferSize\<rfloor>) 0) w) ! k =
      rng w (drawn w + k) * 2 - 1"
    using fillNoise_nth [of k "replicate (nat \<lfloor>bufferSize\<rfloor>) 0" 0 bufferSize w] inside
    by simp
  with k show "fst (fillNoise 0 bufferSize (replicate (nat \<lfloor>bufferSize\<rfloor>) 0) w) ! k =
      map (\<lambda>k. rng w (drawn w + k) * 2 - 1) [0..<nat \<lfloor>bufferSize\<rfloor>] ! k"
    by simp
qed

lemma advance_clamp:
  assumes "scale \<noteq> []"
  shows "advance scale i d s =
     (if i + d * s < 0 then 0
      else if int (length scale) - 1 < i + d * s then int (length scale) - 1
      else i + d * s)"
  using assms by (cases scale) (auto simp: advance_def)

lemma advances_climb:
  assumes "scale \<noteq> []" and "0 \<le> i" and "i \<le> int (length scale) - 1" and "0 \<le> s"
  shows "advances scale i (replicate n (1, s)) = min (int (length scale) - 1) (i + s * int n)"
proof (induction n)
  case 0
  from assms show ?case by (simp add: advances_def)
next
  case (Suc n)
  have "replicate (Suc n) (1::int, s) = replicate n (1, s) @ [(1, s)]"
    by (simp add: replicate_append_same)
  then have "advances scale i (replicate (Suc n) (1, s))
      = advance scale (advances scale i (replicate n (1, s))) 1 s"
    by (simp only: advances_snoc)
  also have "\<dots> = advance scale (min (int (length scale) - 1) (i + s * int n)) 1 s"
    by (simp only: Suc.IH)
  also have "\<dots> = min (int (length scale) - 1) (i + s * int (Suc n))"
  proof -
    define m where "m = s * int n"
    have "0 \<le> m" using assms(4) by (simp add: m_def)
    moreover have "s * int (Suc n) = m + s" by (simp add: m_def algebra_simps)
    ultimately show ?thesis
      unfolding m_def [symmetric] advance_def using assms by (auto simp: min_def max_def)
  qed
  finally show ?case .
qed

lemma advances_descend:
  assumes "scale \<noteq> []" and "0 \<le> i" and "i \<le> int (length scale) - 1" and "0 \<le> s"
  shows "advances scale i (replicate n (- 1, s)) = max 0 (i - s * int n)"
proof (induction n)
  case 0
  from assms show ?case by (simp add: advances_def)
next
  case (Suc n)
  have "replicate (Suc n) (- 1::int, s) = replicate n (- 1, s) @ [(- 1, s)]"
    by (simp add: replicate_append_same)
  then have "advances scale i (replicate (Suc n) (- 1, s))
      = advance scale (advances scale i (replicate n (- 1, s))) (- 1) s"
    by (simp only: advances_snoc)
  also have "\<dots> = advance scale (max 0 (i - s * int n)) (- 1) s"
    by (simp only: Suc.IH)
  also have "\<dots> = max 0 (i - s * int (Suc n))"
  proof -
    define m where "m = s * int n"
    have "0 \<le> m" using assms(4) by (simp add: m_def)
    moreover have "s * int (Suc n) = m + s" by (simp add: m_def algebra_simps)
    ultimately show ?thesis
      unfolding m_def [symmetric] advance_def using assms by (auto simp: min_def max_def)
  qed
  finally show ?case .
qed

lemma rng_fire: "rng (world_of (fire h w)) = rng w"
proof (cases "map_of (timers w) h")
  case None
  then show ?thesis by (simp add: fire_unknown)
next
  case (Some t)
  obtain cb ms where t: "t = (cb, ms)" by (cases t)
  have "rng (world_of (snd (runCallback cb w))) = rng w"
    using synthOnly_runCallback [of w cb] by (simp add: synthOnly_def)
  with Some show ?thesis
    unfolding t by (simp add: fire_known world_of_map_outcome setCallback_def)
qed

lemma fire_melody:
  assumes "map_of (timers w) h = Some (PlayMelodyNote i, ms)"
  shows "map_of (timers (world_of (fire h w))) h =
     Some (PlayMelodyNote (fst (playMelodyNote i w)), ms)"
  unfolding timers_fire_known [OF assms] map_of_setCallback runCallback_melody
  using assms by simp

lemma fire_melody_playing:
  assumes "map_of (timers w) h = Some (PlayMelodyNote i, ms)" and "isMusicPlaying (eng w)"
  shows "map_of (timers (world_of (fire h w))) h =
     Some (PlayMelodyNote (advance phrygian i (if rng w (drawn w) > 0.5 then 1 else - 1)
                             \<lfloor>rng w (Suc (drawn w)) * 3\<rfloor>), ms)"
  unfolding fire_melody [OF assms(1)]
  using assms(2) by (simp add: playMelodyNote_playing tickIndex_def)

lemma firings_melody:
  assumes "map_of (timers w) h = Some (PlayMelodyNote i, ms)" and "isMusicPlaying (eng w)"
    and "\<forall>k. (if rng w k > 0.5 then 1 else - 1) = d \<and> \<lfloor>rng w k * 3\<rfloor> = s"
  shows "map_of (timers (run (replicate n (Fire h)) w)) h =
     Some (PlayMelodyNote (advances phrygian i (replicate n (d, s))), ms)"
  using assms
proof (induction n arbitrary: w i)
  case 0
  then show ?case by (simp add: advances_def)
next
  case (Suc n)
  let ?w = "world_of (fire h w)"
  from Suc.prems(3) have move: "(if rng w (drawn w) > 0.5 then 1 else - 1) = d"
    "\<lfloor>rng w (Suc (drawn w)) * 3\<rfloor> = s"
    by blast+
  have "map_of (timers ?w) h = Some (PlayMelodyNote (advance phrygian i d s), ms)"
    using fire_melody_playing [OF Suc.prems(1,2)] unfolding move .
  moreover have "isMusicPlaying (eng ?w)"
    using Suc.prems(2) by (simp add: eng_fire)
  moreover have "\<forall>k. (if rng ?w k > 0.5 then 1 else - 1) = d \<and> \<lfloor>rng ?w k * 3\<rfloor> = s"
    using Suc.prems(3) unfolding rng_fire .
  ultimately have "map_of (timers (run (replicate n (Fire h)) ?w)) h =
      Some (PlayMelodyNote (advances phrygian (advance phrygian i d s) (replicate n (d, s))), ms)"
    by (rule Suc.IH)
  then show ?case
    by (simp add: advances_def)
qed

lemma chordAt_droneCalls:
  "chordAt (nodes w) bus (currentTime w) (sampleRate ctx) (\<lambda>k. rng w (drawn w + k))
     (droneCalls ctx bus w)"
  by (simp add: chordAt_def droneCalls_def noteCalls_def noiseCalls_def baseFreq_def
      fillNoise_samples eval_nat_numeral)

lemma fire_drone:
  assumes "map_of (timers w) h = Some (PlayDrone, ms)"
    and "audioContext (eng w) = Some ctx" and "musicGain (eng w) = Some bus"
  shows "\<exists>w'. fire h w = Returned w' \<and> calls w' = calls w @ droneCalls ctx bus w"
  by (simp add: fire_known [OF assms(1)] playDrone_ready [OF assms(2,3)] setCallback_def)

section \<open>The melodic cursor\<close>

text \<open>
  C2. The melodic cursor never leaves the scale, and it clamps at both ends:
  \<^item> in every state the page can reach from the constructor, by any events in any order
    and with any random draws, the \<^verbatim>\<open>lastNoteIndex\<close> held by a live melody closure
    lies in \<open>[0, length phrygian - 1]\<close>;
  \<^item> one move over a non-empty scale yields 0 when \<open>i + direction * step\<close> is below 0,
    the last degree when it is above the last degree, and \<open>i + direction * step\<close> itself
    otherwise: it does not wrap, at neither end;
  \<^item> for any non-empty scale, any start index inside it and any run of moves, the cursor
    after the run lies in \<open>[0, length scale - 1]\<close>;
  \<^item> from index 0, after \<open>n\<close> moves with direction +1 and step 2 the cursor is
    \<open>min (length scale - 1) (2 n)\<close>: it reaches the last degree and stays there; more
    generally, from an index \<open>i\<close> of the scale \<open>n\<close> moves up by \<open>s\<close> lead to
    \<open>min (length scale - 1) (i + s n)\<close> and \<open>n\<close> moves down by \<open>s\<close> to
    \<open>max 0 (i - s n)\<close>;
  \<^item> a melody tick moves the cursor by one \<open>advance\<close> over \<open>phrygian\<close> whose direction
    is +1 or -1 and whose step is 0, 1 or 2, when the random draws lie in \<open>[0, 1)\<close>;
  \<^item> on a page with audio, after \<^verbatim>\<open>initAudioContext\<close> the melody interval is live under
    the second handle, with the cursor at 0, and the music is playing;
  \<^item> when the melody interval fires while the music is playing, the cursor its closure
    holds afterwards is the one before, moved by the direction and the step that the first
    two draws of the tick give;
  \<^item> when all draws give the same direction \<open>d\<close> and step \<open>s\<close>, the cursor after \<open>n\<close>
    successive firings of the melody interval is the one before, moved \<open>n\<close> times by
    \<open>(d, s)\<close>.
\<close>

theorem melodic_cursor_clamped:
  "(\<forall>t \<in> set (timers (run evs (constructor p))). \<forall>j. fst (snd t) = PlayMelodyNote j \<longrightarrow>
      0 \<le> j \<and> j \<le> int (length phrygian) - 1) \<and>
   (scale \<noteq> [] \<longrightarrow>
      advance scale i d s =
        (if i + d * s < 0 then 0
         else if int (length scale) - 1 < i + d * s then int (length scale) - 1
         else i + d * s)) \<and>
   (scale \<noteq> [] \<and> 0 \<le> i \<and> i \<le> int (length scale) - 1 \<longrightarrow>
      0 \<le> advances scale i moves \<and> advances scale i moves \<le> int (length scale) - 1) \<and>
   (scale \<noteq> [] \<longrightarrow>
      advances scale 0 (replicate n (1, 2)) = min (int (length scale) - 1) (2 * int n)) \<and>
   (scale \<noteq> [] \<and> 0 \<le> i \<and> i \<le> int (length scale) - 1 \<and> 0 \<le> s \<longrightarrow>
      advances scale i (replicate n (1, s)) = min (int (length scale) - 1) (i + s * int n) \<and>
      advances scale i (replicate n (- 1, s)) = max 0 (i - s * int n)) \<and>
   (isMusicPlaying (eng w) \<and> (\<forall>k. 0 \<le> rng w k \<and> rng w k < 1) \<longrightarrow>
      (\<exists>d s. (d = 1 \<or> d = - 1) \<and> (s = 0 \<or> s = 1 \<or> s = 2) \<and>
         fst (playMelodyNote i w) = advance phrygian i d s)) \<and>
   (pageAudio p \<longrightarrow>
      map_of (timers (run [Initialize] (constructor p))) (pageHandles p + 2) =
        Some (PlayMelodyNote 0,
              3000 + pageRandom p (nat \<lceil>pageSampleRate p * 8\<rceil>) * 4000) \<and>
      isMusicPlaying (eng (run [Initialize] (constructor p)))) \<and>
   (map_of (timers w) h = Some (PlayMelodyNote i, ms) \<and> isMusicPlaying (eng w) \<longrightarrow>
      map_of (timers (world_of (fire h w))) h =
        Some (PlayMelodyNote
                (advance phrygian i (if rng w (drawn w) > 0.5 then 1 else - 1)
                   \<lfloor>rng w (Suc (drawn w)) * 3\<rfloor>), ms)) \<and>
   (map_of (timers w) h = Some (PlayMelodyNote i, ms) \<and> isMusicPlaying (eng w) \<and>
    (\<forall>k. (if rng w k > 0.5 then 1 else - 1) = d \<and> \<lfloor>rng w k * 3\<rfloor> = s) \<longrightarrow>
      map_of (timers (run (replicate n (Fire h)) w)) h =
        Some (PlayMelodyNote (advances phrygian i (replicate n (d, s))), ms))"
proof (intro conjI impI)
  have "cursorsInScale (run evs (constructor p))"
    by (intro cursorsInScale_run cursorsInScale_constructor)
  then show "\<forall>t \<in> set (timers (run evs (constructor p))). \<forall>j. fst (snd t) = PlayMelodyNote j \<longrightarrow>
      0 \<le> j \<and> j \<le> int (length phrygian) - 1"
    by (simp add: cursorsInScale_def)
next
  assume "scale \<noteq> []"
  then show "advance scale i d s =
        (if i + d * s < 0 then 0
         else if int (length scale) - 1 < i + d * s then int (length scale) - 1
         else i + d * s)"
    by (rule advance_clamp)
next
  assume "scale \<noteq> [] \<and> 0 \<le> i \<and> i \<le> int (length scale) - 1"
  then show "0 \<le> advances scale i moves" "advances scale i moves \<le> int (length scale) - 1"
    using advances_range [of scale i moves] by simp_all
next
  assume "scale \<noteq> []"
  then show "advances scale 0 (replicate n (1, 2)) = min (int (length scale) - 1) (2 * int n)"
    by (rule advances_up)
next
  assume inside: "scale \<noteq> [] \<and> 0 \<le> i \<and> i \<le> int (length scale) - 1 \<and> 0 \<le> s"
  then show "advances scale i (replicate n (1, s)) = min (int (length scale) - 1) (i + s * int n)"
    by (intro advances_climb) simp_all
  from inside show "advances scale i (replicate n (- 1, s)) = max 0 (i - s * int n)"
    by (intro advances_descend) simp_all
next
  assume tick: "isMusicPlaying (eng w) \<and> (\<forall>k. 0 \<le> rng w k \<and> rng w k < 1)"
  then have step: "\<lfloor>rng w (Suc (drawn w)) * 3\<rfloor> = 0 \<or> \<lfloor>rng w (Suc (drawn w)) * 3\<rfloor> = 1 \<or>
      \<lfloor>rng w (Suc (drawn w)) * 3\<rfloor> = 2"
    by (intro floor_times_three) simp_all
  have "fst (playMelodyNote i w) =
      advance phrygian i (if rng w (drawn w) > 0.5 then 1 else - 1) \<lfloor>rng w (Suc (drawn w)) * 3\<rfloor>"
    using tick by (simp add: playMelodyNote_playing tickIndex_def)
  with step show "\<exists>d s. (d = 1 \<or> d = - 1) \<and> (s = 0 \<or> s = 1 \<or> s = 2) \<and>
         fst (playMelodyNote i w) = advance phrygian i d s"
    by (cases "rng w (drawn w) > 0.5") auto
next
  assume audio: "pageAudio p"
  note click = first_click [OF constructor_fresh [OF audio]]
  show "map_of (timers (run [Initialize] (constructor p))) (pageHandles p + 2) =
        Some (PlayMelodyNote 0,
              3000 + pageRandom p (nat \<lceil>pageSampleRate p * 8\<rceil>) * 4000)"
    by (simp add: click) (simp add: constructor_def)
  show "isMusicPlaying (eng (run [Initialize] (constructor p)))"
    by (simp add: click)
next
  assume "map_of (timers w) h = Some (PlayMelodyNote i, ms) \<and> isMusicPlaying (eng w)"
  then show "map_of (timers (world_of (fire h w))) h =
        Some (PlayMelodyNote
                (advance phrygian i (if rng w (drawn w) > 0.5 then 1 else - 1)
                   \<lfloor>rng w (Suc (drawn w)) * 3\<rfloor>), ms)"
    by (intro fire_melody_playing) simp_all
next
  assume "map_of (timers w) h = Some (PlayMelodyNote i, ms) \<and> isMusicPlaying (eng w) \<and>
    (\<forall>k. (if rng w k > 0.5 then 1 else - 1) = d \<and> \<lfloor>rng w k * 3\<rfloor> = s)"
  then show "map_of (timers (run (replicate n (Fire h)) w)) h =
        Some (PlayMelodyNote (advances phrygian i (replicate n (d, s))), ms)"
    by (intro firings_melody) simp_all
qed

theorem melodic_cursor_clamped_witness:
  "minor \<noteq> [] \<and> phrygian \<noteq> [] \<and> (0::int) \<le> 0 \<and> 0 \<le> int (length phrygian) - 1 \<and> (0::int) \<le> 2 \<and>
   pageAudio samplePage \<and>
   isMusicPlaying (eng sampleWorld) \<and>
   (\<forall>k. 0 \<le> rng sampleWorld k \<and> rng sampleWorld k < 1) \<and>
   (\<forall>k. (if rng sampleWorld k > 0.5 then 1 else - 1) = (1::int) \<and> \<lfloor>rng sampleWorld k * 3\<rfloor> = 2) \<and>
   map_of (timers sampleWorld) 2 = Some (PlayMelodyNote 0, 5800) \<and>
   advances minor 0 (replicate 100 (1, 2)) = 6 \<and>
   advance phrygian 0 (- 1) 2 = 0 \<and>
   advance phrygian 6 1 2 = 6 \<and>
   advances phrygian 0 (replicate 100 (- 1, 2)) = 0 \<and>
   map_of (timers (world_of (fire 2 sampleWorld))) 2 = Some (PlayMelodyNote 2, 5800) \<and>
   map_of (timers (run (replicate 100 (Fire 2)) sampleWorld)) 2 = Some (PlayMelodyNote 6, 5800)"
proof -
  have draws: "\<forall>k. 0 \<le> rng sampleWorld k \<and> rng sampleWorld k < 1"
    "\<forall>k. (if rng sampleWorld k > 0.5 then 1 else - 1) = (1::int) \<and> \<lfloor>rng sampleWorld k * 3\<rfloor> = 2"
    by (simp_all add: sampleWorld_platform)
  have live: "map_of (timers sampleWorld) 2 = Some (PlayMelodyNote 0, 5800)"
    "isMusicPlaying (eng sampleWorld)"
    by (simp_all add: sampleWorld_timers sampleWorld_eng)
  have scales: "minor \<noteq> []" "phrygian \<noteq> []" "int (length phrygian) - 1 = 6"
    "int (length minor) - 1 = 6" "pageAudio samplePage"
    by (simp_all add: minor_def phrygian_def samplePage_def)
  have first: "\<lfloor>rng sampleWorld (Suc (drawn sampleWorld)) * 3\<rfloor> = 2"
    "rng sampleWorld (drawn sampleWorld) > 0.5"
    by (simp_all add: sampleWorld_platform)
  from melodic_cursor_clamped [where evs = "[]" and p = samplePage and scale = minor and i = 0
      and d = 1 and s = 2 and moves = "replicate 100 (1, 2)" and n = 100 and w = sampleWorld
      and h = 2 and ms = 5800] scales
  have up: "advances minor 0 (replicate 100 (1, 2)) = 6"
    by simp
  from melodic_cursor_clamped [where evs = "[]" and p = samplePage and scale = phrygian and i = 0
      and d = 1 and s = 2 and moves = "replicate 100 (1, 2)" and n = 100 and w = sampleWorld
      and h = 2 and ms = 5800] scales draws live
  have tick: "map_of (timers (world_of (fire 2 sampleWorld))) 2 =
        Some (PlayMelodyNote
                (advance phrygian 0 (if rng sampleWorld (drawn sampleWorld) > 0.5 then 1 else - 1)
                   \<lfloor>rng sampleWorld (Suc (drawn sampleWorld)) * 3\<rfloor>), 5800)"
    and ticks: "map_of (timers (run (replicate 100 (Fire 2)) sampleWorld)) 2 =
        Some (PlayMelodyNote (advances phrygian 0 (replicate 100 (1, 2))), 5800)"
    and climb: "advances phrygian 0 (replicate 100 (1, 2)) = min 6 (0 + 2 * int 100)"
    and descend: "advances phrygian 0 (replicate 100 (- 1, 2)) = max 0 (0 - 2 * int 100)"
    and clamp: "advance phrygian 0 1 2 = (if (0::int) + 1 * 2 < 0 then 0
         else if 6 < (0::int) + 1 * 2 then 6 else 0 + 1 * 2)"
    by simp_all
  have ends: "advance phrygian 0 (- 1) 2 = 0" "advance phrygian 6 1 2 = 6"
    by (simp_all add: advance_def phrygian_def)
  from tick first clamp have one: "map_of (timers (world_of (fire 2 sampleWorld))) 2 =
      Some (PlayMelodyNote 2, 5800)"
    by simp
  from ticks climb have many: "map_of (timers (run (replicate 100 (Fire 2)) sampleWorld)) 2 =
      Some (PlayMelodyNote 6, 5800)"
    by simp
  from descend have down: "advances phrygian 0 (replicate 100 (- 1, 2)) = 0"
    by simp
  from scales draws live up ends one many down show ?thesis
    by simp
qed

section \<open>The note synthesizer\<close>

text \<open>
  C5. A \<^verbatim>\<open>playNote\<close> call on an initialized engine (the device and the master gain
  exist) returns, and what it adds to the device log is one oscillator and one gain node
  with: the gain set to the peak gain at the onset \<open>currentTime\<close>, one exponential ramp
  of that gain to 0.001 ending at onset + duration, the oscillator started, and exactly one
  stop, of that oscillator, at onset + duration.
\<close>

theorem playNote_envelope_and_stop:
  assumes "audioContext (eng w) = Some ctx"
    and "masterGain (eng w) = Some master"
  shows "\<exists>w'. playNote freq duration type volume destination w = Returned w' \<and>
     (let new = drop (length (calls w)) (calls w');
          osc = Node (nodes w);
          gain = Node (Suc (nodes w));
          onset = currentTime w;
          peakGain = (case volume of None \<Rightarrow> 0.1 | Some v \<Rightarrow> v);
          bus = (case destination of None \<Rightarrow> master | Some d \<Rightarrow> d)
      in take (length (calls w)) (calls w') = calls w \<and>
         [n. CreateOscillator n \<leftarrow> new] = [osc] \<and>
         [n. CreateGain n \<leftarrow> new] = [gain] \<and>
         [(n, f). SetFrequencyValue n f \<leftarrow> new] = [(osc, freq)] \<and>
         [(n, p, v, t). SetValueAtTime n p v t \<leftarrow> new] = [(gain, GainParam, peakGain, onset)] \<and>
         [(n, p, v, t). ExponentialRampToValueAtTime n p v t \<leftarrow> new] =
           [(gain, GainParam, 0.001, onset + duration)] \<and>
         [(n, p, v, t). LinearRampToValueAtTime n p v t \<leftarrow> new] = [] \<and>
         [(a, b). Connect a b \<leftarrow> new] = [(osc, gain), (gain, bus)] \<and>
         [n. Start n \<leftarrow> new] = [osc] \<and>
         [(n, t). Stop n t \<leftarrow> new] = [(osc, onset + duration)])"
proof -
  have routed: "orElse destination (masterGain (eng w)) =
      Some (case destination of None \<Rightarrow> master | Some d \<Rightarrow> d)"
    using assms(2) by (simp add: orElse_def split: option.splits)
  show ?thesis
    unfolding playNote_routed [OF assms(1) routed]
    by (simp add: noteCalls_def Let_def)
qed

theorem playNote_envelope_and_stop_witness:
  "\<exists>w'. playNote 440 2 (Some Sine) (Some (1 / 2)) None
           ((constructor samplePage)\<lparr>eng := (eng (constructor samplePage))
              \<lparr>audioContext := Some (AudioContext 2), masterGain := Some (Node 0)\<rparr>, nodes := 3\<rparr>)
         = Returned w' \<and>
       [(n, t). Stop n t \<leftarrow> calls w'] = [(Node 3, 2)] \<and>
       [(n, p, v, t). SetValueAtTime n p v t \<leftarrow> calls w'] = [(Node 4, GainParam, 1 / 2, 0)]"
  using playNote_envelope_and_stop [of
      "(constructor samplePage)\<lparr>eng := (eng (constructor samplePage))
              \<lparr>audioContext := Some (AudioContext 2), masterGain := Some (Node 0)\<rparr>, nodes := 3\<rparr>"
      "AudioContext 2" "Node 0" 440 2 "Some Sine" "Some (1 / 2)" None]
  by (auto simp add: constructor_def samplePage_def Let_def)

section \<open>Starting and stopping\<close>

text \<open>
  C1. Take any state the page can reach from the constructor (clicks and key presses,
  calls of the public operations and of the two synthesis routines, timers firing, time
  passing, in any order and with any random draws) and call \<^verbatim>\<open>stopBackgroundMusic\<close>
  there. The call returns and makes no device call; afterwards \<^verbatim>\<open>isMusicPlaying\<close> is
  false, \<^verbatim>\<open>musicInterval\<close> is null, \<^verbatim>\<open>ambientIntervals\<close> is empty and the timer table
  holds no interval of the engine. From then on, whatever timers fire and however much
  time passes, the device log does not grow. More generally, as long as nothing starts the
  music again, the timer table stays empty through any further events, so that a timer
  firing does nothing at all.
\<close>

theorem stop_silences_generators:
  "\<exists>w'. stopBackgroundMusic (run evs (constructor p)) = Returned w' \<and>
        \<not> isMusicPlaying (eng w') \<and>
        musicInterval (eng w') = None \<and>
        ambientIntervals (eng w') = [] \<and>
        timers w' = [] \<and>
        calls w' = calls (run evs (constructor p)) \<and>
        (\<forall>later. list_all timerEvent later \<longrightarrow>
           calls (run later w') = calls w' \<and> timers (run later w') = []) \<and>
        (\<forall>later. (\<forall>e \<in> set later. \<not> startsMusic e) \<longrightarrow>
           timers (run later w') = [] \<and>
           (\<forall>h. fire h (run later w') = Returned (run later w')))"
proof -
  have "accounted (run evs (constructor p))"
    by (intro accounted_run accounted_constructor)
  then have "stopBackgroundMusic (run evs (constructor p)) =
      Returned ((run evs (constructor p))\<lparr>eng := (eng (run evs (constructor p)))
                    \<lparr>isMusicPlaying := False, musicInterval := None, ambientIntervals := []\<rparr>,
                  timers := []\<rparr>)"
    by (rule stop_accounted)
  moreover have "timers w' = [] \<Longrightarrow> \<forall>later. list_all timerEvent later \<longrightarrow>
           calls (run later w') = calls w' \<and> timers (run later w') = []" for w'
    using quiet_run by blast
  moreover have "\<forall>later. (\<forall>e \<in> set later. \<not> startsMusic e) \<longrightarrow>
       timers (run later w') = [] \<and> (\<forall>h. fire h (run later w') = Returned (run later w'))"
    if "timers w' = []" "\<not> isMusicPlaying (eng w')" for w'
  proof (intro allI impI)
    fix later
    assume "\<forall>e \<in> set later. \<not> startsMusic e"
    with that have none: "timers (run later w') = []"
      using calm_run [of w' later] by simp
    then have "fire h (run later w') = Returned (run later w')" for h
      by (simp add: fire_unknown)
    with none show "timers (run later w') = [] \<and>
        (\<forall>h. fire h (run later w') = Returned (run later w'))"
      by simp
  qed
  ultimately show ?thesis
    by simp
qed

theorem stop_silences_generators_witness:
  "list_all timerEvent [Fire 1, Elapse 20, Fire 2, Fire 3, Fire 4] \<and>
   list_all (\<lambda>e. \<not> startsMusic e) [HoverCue, Fire 1, StopMusic, ClickCue] \<and>
   (\<exists>w'. stopBackgroundMusic (run [Initialize] (constructor samplePage)) = Returned w' \<and>
      timers w' = [] \<and>
      calls (run [Fire 1, Elapse 20, Fire 2, Fire 3, Fire 4] w') = calls w' \<and>
      timers (run [HoverCue, Fire 1, StopMusic, ClickCue] w') = [])"
proof -
  from stop_silences_generators [of "[Initialize]" samplePage] obtain w'
    where stopped: "stopBackgroundMusic (run [Initialize] (constructor samplePage)) = Returned w'"
      and none: "timers w' = []"
      and quiet: "\<forall>later. list_all timerEvent later \<longrightarrow>
           calls (run later w') = calls w' \<and> timers (run later w') = []"
      and calm: "\<forall>later. (\<forall>e \<in> set later. \<not> startsMusic e) \<longrightarrow>
           timers (run later w') = [] \<and>
           (\<forall>h. fire h (run later w') = Returned (run later w'))"
    by blast
  have later: "list_all timerEvent [Fire 1, Elapse 20, Fire 2, Fire 3, Fire 4]"
    by simp
  with quiet have silent: "calls (run [Fire 1, Elapse 20, Fire 2, Fire 3, Fire 4] w') = calls w'"
    by blast
  have cues: "\<forall>e \<in> set [HoverCue, Fire 1, StopMusic, ClickCue]. \<not> startsMusic e"
    by simp
  with calm have "timers (run [HoverCue, Fire 1, StopMusic, ClickCue] w') = []"
    by blast
  with stopped none later silent cues show ?thesis
    unfolding list_all_iff by blast
qed

text \<open>
  C4. \<^verbatim>\<open>startBackgroundMusic\<close> while music is playing changes nothing, and a second call
  right after a first one changes nothing: it returns the state the first call left, with
  the same timers, the same recorded handles and the same device log.
\<close>

theorem start_idempotent:
  "(isMusicPlaying (eng w) \<longrightarrow> startBackgroundMusic w = Returned w) \<and>
   startBackgroundMusic (world_of (startBackgroundMusic w)) =
     Returned (world_of (startBackgroundMusic w)) \<and>
   run [StartMusic, StartMusic] w = run [StartMusic] w"
proof -
  have again: "startBackgroundMusic (world_of (startBackgroundMusic w)) =
      Returned (world_of (startBackgroundMusic w))"
  proof (cases "audioContext (eng w) = None")
    case True
    then show ?thesis by (simp add: startBackgroundMusic_noop)
  next
    case False
    then have "isMusicPlaying (eng (world_of (startBackgroundMusic w)))"
      by (rule startBackgroundMusic_playing)
    then show ?thesis by (simp add: startBackgroundMusic_noop)
  qed
  then show ?thesis
    by (simp add: startBackgroundMusic_noop)
qed

theorem start_idempotent_witness:
  "isMusicPlaying (eng (run [Initialize] (constructor samplePage))) \<and>
   startBackgroundMusic (run [Initialize] (constructor samplePage)) =
     Returned (run [Initialize] (constructor samplePage)) \<and>
   length (timers (run [Initialize, StartMusic] (constructor samplePage))) = 4"
proof -
  have fresh: "audioContext (eng (constructor samplePage)) = None"
    "contextAvailable (constructor samplePage)"
    by (simp_all add: constructor_def samplePage_def)
  have ready: "audioContext (eng (graphSetup (constructor samplePage))) = Some (AudioContext 2)"
    "musicGain (eng (graphSetup (constructor samplePage))) = Some (Node 1)"
    "\<not> isMusicPlaying (eng (graphSetup (constructor samplePage)))"
    by (simp_all add: graphSetup_def constructor_def samplePage_def)
  have playing: "isMusicPlaying (eng (run [Initialize] (constructor samplePage)))"
    by (simp add: initAudioContext_available [OF fresh] startBackgroundMusic_ready [OF ready])
  have four: "length (timers (run [Initialize] (constructor samplePage))) = 4"
    by (simp add: initAudioContext_available [OF fresh] startBackgroundMusic_ready [OF ready])
      (simp add: graphSetup_def constructor_def)
  from playing four start_idempotent [of "run [Initialize] (constructor samplePage)"]
  show ?thesis
    by simp
qed

section \<open>No audio device\<close>

text \<open>
  C3. When \<^verbatim>\<open>new AudioContext()\<close> fails, \<^verbatim>\<open>initAudioContext\<close> returns and leaves the
  engine as it was, with \<^verbatim>\<open>audioContext\<close> null. In any state where \<^verbatim>\<open>audioContext\<close> is
  null, every sequence of calls that does not try to construct the device again (start,
  stop, the two cues, \<^verbatim>\<open>playNote\<close> and \<^verbatim>\<open>playFilteredNoise\<close> with any arguments, and
  timers firing) has every call return without throwing, leaves the device log as it was
  and keeps \<^verbatim>\<open>audioContext\<close> null; the only condition is that \<^verbatim>\<open>audioContext\<close> is null.
  As long as the platform keeps refusing the device, the same holds when the sequence also
  holds further clicks, key presses and \<^verbatim>\<open>initAudioContext\<close> calls. The disabled state
  lasts until a later \<^verbatim>\<open>initAudioContext\<close> finds the device: it is not permanent.
\<close>

theorem device_failure_disables_engine:
  "(audioContext (eng w) = None \<and> \<not> contextAvailable w \<longrightarrow>
      initAudioContext w = Returned w) \<and>
   (audioContext (eng w) = None \<and> (\<forall>e \<in> set evs. \<not> constructsDevice e) \<longrightarrow>
      (\<forall>out \<in> set (outcomes evs w).
         \<not> throws out \<and> calls (world_of out) = calls w \<and>
         audioContext (eng (world_of out)) = None)) \<and>
   (audioContext (eng w) = None \<and> \<not> contextAvailable w \<and>
    (\<forall>e \<in> set evs. \<not> grantsAudio e) \<longrightarrow>
      (\<forall>out \<in> set (outcomes evs w).
         \<not> throws out \<and> calls (world_of out) = calls w \<and>
         audioContext (eng (world_of out)) = None))"
  using outcomes_disabled [of w evs] outcomes_unavailable [of w evs]
  by (simp add: initAudioContext_unavailable)

theorem device_failure_disables_engine_witness:
  "audioContext (eng (constructor silentPage)) = None \<and>
   \<not> contextAvailable (constructor silentPage) \<and>
   list_all (\<lambda>e. \<not> constructsDevice e)
     [StartMusic, HoverCue, StopMusic, ClickCue, PlayNote 440 1 None None None,
      PlayFilteredNoise 1 100 (1 / 10) None, Fire 1] \<and>
   list_all (\<lambda>e. \<not> grantsAudio e)
     [StartMusic, HoverCue, StopMusic, ClickCue, PlayNote 440 1 None None None,
      PlayFilteredNoise 1 100 (1 / 10) None, Fire 1] \<and>
   initAudioContext (constructor silentPage) = Returned (constructor silentPage) \<and>
   list_all (\<lambda>out. \<not> throws out \<and> calls (world_of out) = [])
     (outcomes [StartMusic, HoverCue, StopMusic, ClickCue, PlayNote 440 1 None None None,
                PlayFilteredNoise 1 100 (1 / 10) None, Fire 1] (constructor silentPage))"
proof -
  have off: "audioContext (eng (constructor silentPage)) = None"
    "\<not> contextAvailable (constructor silentPage)"
    "calls (constructor silentPage) = []"
    by (simp_all add: constructor_def silentPage_def)
  have evs: "\<forall>e \<in> set [StartMusic, HoverCue, StopMusic, ClickCue, PlayNote 440 1 None None None,
                PlayFilteredNoise 1 100 (1 / 10) None, Fire 1]. \<not> constructsDevice e"
    "\<forall>e \<in> set [StartMusic, HoverCue, StopMusic, ClickCue, PlayNote 440 1 None None None,
                PlayFilteredNoise 1 100 (1 / 10) None, Fire 1]. \<not> grantsAudio e"
    by simp_all
  from device_failure_disables_engine [of "constructor silentPage"
      "[StartMusic, HoverCue, StopMusic, ClickCue, PlayNote 440 1 None None None,
        PlayFilteredNoise 1 100 (1 / 10) None, Fire 1]"] off evs
  show ?thesis
    unfolding list_all_iff by simp
qed

text \<open>
  C3, the disabled state can end. On a page whose platform refuses audio, the first click
  runs \<^verbatim>\<open>initAudioContext\<close>, which fails and leaves \<^verbatim>\<open>audioContext\<close> null with no device
  call made. The listener for the first key press is still registered (lines 35-36): when
  the platform grants audio afterwards and a key is pressed, \<^verbatim>\<open>initAudioContext\<close> runs
  again, passes the test of line 40 and constructs the device. A hover cue after that
  returns and makes ten device calls.
\<close>

theorem disabled_state_ends:
  "audioContext (eng (run [Click] (constructor silentPage))) = None \<and>
   calls (run [Click] (constructor silentPage)) = [] \<and>
   audioContext (eng (run [Click, AudioPermission True, KeyDown] (constructor silentPage))) =
     Some (AudioContext 2) \<and>
   \<not> throws (step HoverCue (run [Click, AudioPermission True, KeyDown] (constructor silentPage))) \<and>
   length (calls (run [Click, AudioPermission True, KeyDown, HoverCue] (constructor silentPage))) =
     length (calls (run [Click, AudioPermission True, KeyDown] (constructor silentPage))) + 10"
proof -
  let ?w0 = "constructor silentPage"
  let ?w1 = "?w0\<lparr>clickListener := False\<rparr>"
  let ?w2 = "?w1\<lparr>contextAvailable := True\<rparr>"
  let ?w3 = "?w2\<lparr>keydownListener := False\<rparr>"
  have click: "step Click ?w0 = Returned ?w1"
    by (simp add: constructor_def silentPage_def initAudioContext_unavailable)
  then have one: "run [Click] ?w0 = ?w1"
    by simp
  have perm: "step (AudioPermission True) ?w1 = Returned ?w2"
    by simp
  have fresh: "audioContext (eng ?w3) = None" "contextAvailable ?w3" "\<not> isMusicPlaying (eng ?w3)"
    by (simp_all add: constructor_def)
  have key: "step KeyDown ?w2 = initAudioContext ?w3"
    by (simp add: constructor_def)
  define w4 where "w4 = world_of (initAudioContext ?w3)"
  have three: "run [Click, AudioPermission True, KeyDown] ?w0 = w4"
    unfolding w4_def run.simps click perm key world_of.simps by (rule refl)
  have dev: "audioContext (eng w4) = Some (AudioContext 2)" "sfxGain (eng w4) = Some (Node 2)"
    unfolding w4_def first_click [OF fresh]
    by (simp_all add: constructor_def silentPage_def)
  have hover: "step HoverCue w4 =
      Returned (w4\<lparr>calls := calls w4 @ noteCalls 880 0.03 (Some Square) (Some 0.02) w4 @
        [Connect (Node (Suc (nodes w4))) (Node 2), Start (Node (nodes w4)),
         Stop (Node (nodes w4)) (currentTime w4 + 0.03)],
        nodes := Suc (Suc (nodes w4))\<rparr>)"
    using dev by (simp add: playHover_def playNote_bus)
  have four: "run [Click, AudioPermission True, KeyDown, HoverCue] ?w0 = world_of (step HoverCue w4)"
    unfolding w4_def run.simps click perm key world_of.simps by (rule refl)
  have "audioContext (eng ?w1) = None" "calls ?w1 = []"
    by (simp_all add: constructor_def)
  moreover have "\<not> throws (step HoverCue w4)"
    unfolding hover by simp
  moreover have "length (calls (world_of (step HoverCue w4))) = length (calls w4) + 10"
    unfolding hover by (simp add: noteCalls_def)
  ultimately show ?thesis
    unfolding one three four using dev(1) by simp
qed

section \<open>The melody generator\<close>



text \<open>
  C10. \<^verbatim>\<open>startMelody\<close> calls \<^verbatim>\<open>Math.random\<close> exactly once and registers the melody
  callback with the period \<open>3000 + 4000 r\<close> milliseconds, which lies in [3000, 7000) for a
  draw \<open>r\<close> in [0, 1). No timer that fires changes the period of any interval. On a page
  with audio, after the first \<^verbatim>\<open>initAudioContext\<close> the melody interval is the second
  handle handed out, and through every later sequence of events without a stop it is
  still registered for the melody callback with that same period.
\<close>

theorem melody_period_drawn_once:
  "(audioContext (eng w) \<noteq> None \<longrightarrow>
      (\<exists>w'. startMelody w = Returned w' \<and>
         drawn w' = drawn w + 1 \<and>
         musicInterval (eng w') = Some (lastHandle w + 1) \<and>
         timers w' = timers w @
           [(lastHandle w + 1, PlayMelodyNote 0, 3000 + rng w (drawn w) * 4000)])) \<and>
   (0 \<le> rng w (drawn w) \<and> rng w (drawn w) < 1 \<longrightarrow>
      3000 \<le> 3000 + rng w (drawn w) * 4000 \<and> 3000 + rng w (drawn w) * 4000 < 7000) \<and>
   map (\<lambda>(h, cb, ms). (h, ms)) (timers (world_of (fire k v))) =
     map (\<lambda>(h, cb, ms). (h, ms)) (timers v) \<and>
   (pageAudio p \<longrightarrow>
      (let w1 = run [Initialize] (constructor p);
           h = pageHandles p + 2;
           period = 3000 + pageRandom p (nat \<lceil>pageSampleRate p * 8\<rceil>) * 4000
       in musicInterval (eng w1) = Some h \<and>
          drawn w1 = nat \<lceil>pageSampleRate p * 8\<rceil> + 1 \<and>
          (\<forall>evs. (\<forall>e \<in> set evs. \<not> stopsMusic e) \<longrightarrow>
             (\<exists>j. map_of (timers (run evs w1)) h = Some (PlayMelodyNote j, period)))))"
proof (intro conjI impI)
  assume "audioContext (eng w) \<noteq> None"
  then show "\<exists>w'. startMelody w = Returned w' \<and>
         drawn w' = drawn w + 1 \<and>
         musicInterval (eng w') = Some (lastHandle w + 1) \<and>
         timers w' = timers w @
           [(lastHandle w + 1, PlayMelodyNote 0, 3000 + rng w (drawn w) * 4000)]"
    by (simp add: startMelody_enabled)
next
  assume "0 \<le> rng w (drawn w) \<and> rng w (drawn w) < 1"
  then show "3000 \<le> 3000 + rng w (drawn w) * 4000" "3000 + rng w (drawn w) * 4000 < 7000"
    by simp_all
next
  show "map (\<lambda>(h, cb, ms). (h, ms)) (timers (world_of (fire k v))) =
     map (\<lambda>(h, cb, ms). (h, ms)) (timers v)"
    by (rule periods_fire)
next
  assume audio: "pageAudio p"
  let ?w1 = "run [Initialize] (constructor p)"
  let ?h = "pageHandles p + 2"
  let ?period = "3000 + pageRandom p (nat \<lceil>pageSampleRate p * 8\<rceil>) * 4000"
  have w1: "?w1 = world_of (initAudioContext (constructor p))"
    by simp
  have handle: "musicInterval (eng ?w1) = Some ?h"
    unfolding w1 first_click [OF constructor_fresh [OF audio]] by (simp add: constructor_def)
  have draws: "drawn ?w1 = nat \<lceil>pageSampleRate p * 8\<rceil> + 1"
    unfolding w1 first_click [OF constructor_fresh [OF audio]] by (simp add: constructor_def)
  have start: "scheduled ?h (PlayMelodyNote 0) ?period ?w1"
    unfolding w1 first_click [OF constructor_fresh [OF audio]]
    by (simp add: scheduled_def constructor_def)
  have later: "\<exists>j. map_of (timers (run evs ?w1)) ?h = Some (PlayMelodyNote j, ?period)"
    if "\<forall>e \<in> set evs. \<not> stopsMusic e" for evs
  proof -
    from start that have "scheduled ?h (PlayMelodyNote 0) ?period (run evs ?w1)"
      by (rule scheduled_run)
    then show ?thesis
      by (auto simp: scheduled_def split: option.splits dest: generatorOf_melody)
  qed
  from handle draws later
  show "let w1 = run [Initialize] (constructor p);
           h = pageHandles p + 2;
           period = 3000 + pageRandom p (nat \<lceil>pageSampleRate p * 8\<rceil>) * 4000
       in musicInterval (eng w1) = Some h \<and>
          drawn w1 = nat \<lceil>pageSampleRate p * 8\<rceil> + 1 \<and>
          (\<forall>evs. (\<forall>e \<in> set evs. \<not> stopsMusic e) \<longrightarrow>
             (\<exists>j. map_of (timers (run evs w1)) h = Some (PlayMelodyNote j, period)))"
    unfolding Let_def by blast
qed

theorem melody_period_drawn_once_witness:
  "audioContext (eng sampleWorld) = Some (AudioContext 2) \<and>
   0 \<le> rng sampleWorld (drawn sampleWorld) \<and> rng sampleWorld (drawn sampleWorld) < 1 \<and>
   pageAudio samplePage \<and>
   list_all (\<lambda>e. \<not> stopsMusic e) [Fire 2, Elapse (58 / 10), Fire 2, StartMusic] \<and>
   (\<exists>w'. startMelody sampleWorld = Returned w' \<and> drawn w' = drawn sampleWorld + 1) \<and>
   (\<exists>j. map_of (timers (run [Fire 2, Elapse (58 / 10), Fire 2, StartMusic] sampleWorld)) 2 =
      Some (PlayMelodyNote j, 5800))"
proof -
  let ?evs = "[Fire 2, Elapse (58 / 10), Fire 2, StartMusic]"
  have evs: "\<forall>e \<in> set ?evs. \<not> stopsMusic e"
    by simp
  have page: "pageAudio samplePage" "pageHandles samplePage + 2 = 2"
    "3000 + pageRandom samplePage (nat \<lceil>pageSampleRate samplePage * 8\<rceil>) * 4000 = 5800"
    by (simp_all add: samplePage_def)
  have ctx: "audioContext (eng sampleWorld) = Some (AudioContext 2)"
    by (simp add: sampleWorld_eng)
  have draw: "0 \<le> rng sampleWorld (drawn sampleWorld)" "rng sampleWorld (drawn sampleWorld) < 1"
    by (simp_all add: sampleWorld_platform)
  note claim = melody_period_drawn_once [of sampleWorld 0 sampleWorld samplePage]
  from claim ctx have once: "\<exists>w'. startMelody sampleWorld = Returned w' \<and>
      drawn w' = drawn sampleWorld + 1"
    by auto
  from claim page(1) have "\<forall>evs. (\<forall>e \<in> set evs. \<not> stopsMusic e) \<longrightarrow>
      (\<exists>j. map_of (timers (run evs sampleWorld)) 2 = Some (PlayMelodyNote j, 5800))"
    unfolding Let_def page sampleWorld_def [symmetric] by blast
  with evs have "\<exists>j. map_of (timers (run ?evs sampleWorld)) 2 = Some (PlayMelodyNote j, 5800)"
    by blast
  with ctx draw page(1) evs once show ?thesis
    unfolding list_all_iff by blast
qed

section \<open>The drone generator\<close>

text \<open>
  C7. On a page with audio, \<^verbatim>\<open>initAudioContext\<close> and then \<^verbatim>\<open>startBackgroundMusic\<close> both
  return, and right after the nine calls that build the gain graph the device log holds
  one drone chord, started at the time of the call: four sound sources, namely a sine at
  73.42 Hz with gain 0.04, a sine at 73.42 * 1.5 Hz with gain 0.025, a triangle at
  73.42 * 2 Hz with gain 0.015, each stopped 8 seconds after its start, and one noise
  source behind a low-pass filter at 100 Hz with gain 0.02. The buffer of the noise source
  holds 8 seconds of samples (the integer part of 8 times the sample rate), and sample
  \<open>k\<close> is \<open>2 r - 1\<close> for the \<open>k\<close>-th number \<open>r\<close> that \<^verbatim>\<open>Math.random()\<close> hands out
  during the chord. The chord callback is registered with a period of 7500 ms, shorter than the 8 seconds a
  layer lasts. Through every later sequence of events without a stop it stays registered
  with that period, and whenever it fires it adds one more such chord to the log.
\<close>

theorem drone_chords:
  assumes "pageAudio p"
  shows "let w1 = run [Initialize, StartMusic] (constructor p);
             h = pageHandles p + 1;
             bus = Node 1;
             rate = pageSampleRate p
         in \<not> throws (step Initialize (constructor p)) \<and>
            \<not> throws (step StartMusic (run [Initialize] (constructor p))) \<and>
            musicGain (eng w1) = Some bus \<and>
            currentTime w1 = pageTime p \<and>
            chordAt 3 bus (pageTime p) rate (pageRandom p) (drop 9 (calls w1)) \<and>
            map_of (timers w1) h = Some (PlayDrone, 7500) \<and>
            (\<forall>evs. (\<forall>e \<in> set evs. \<not> stopsMusic e) \<longrightarrow>
               map_of (timers (run evs w1)) h = Some (PlayDrone, 7500) \<and>
               (\<exists>w'. fire h (run evs w1) = Returned w' \<and>
                  chordAt (nodes (run evs w1)) bus (currentTime (run evs w1)) rate
                    (\<lambda>k. rng (run evs w1) (drawn (run evs w1) + k))
                    (drop (length (calls (run evs w1))) (calls w')))) \<and>
            7500 / 1000 < (8::real)"
proof -
  let ?w0 = "constructor p"
  let ?w1 = "run [Initialize, StartMusic] ?w0"
  let ?h = "pageHandles p + 1"
  let ?ctx = "AudioContext (pageSampleRate p)"
  note click = first_click [OF constructor_fresh [OF assms]]
  have init: "\<not> throws (step Initialize ?w0)"
    by (simp add: click)
  have playing: "isMusicPlaying (eng (run [Initialize] ?w0))"
    by (simp add: click)
  then have noop: "step StartMusic (run [Initialize] ?w0) = Returned (run [Initialize] ?w0)"
    by (simp add: startBackgroundMusic_noop)
  then have w1: "?w1 = world_of (initAudioContext ?w0)"
    by simp
  have device: "audioContext (eng ?w1) = Some ?ctx" "musicGain (eng ?w1) = Some (Node 1)"
    unfolding w1 click by (simp_all add: constructor_def)
  have time: "currentTime ?w1 = pageTime p"
    unfolding w1 click by (simp add: constructor_def)
  have "drop 9 (calls ?w1) = droneCalls ?ctx (Node 1) (?w0\<lparr>nodes := 3\<rparr>)"
    unfolding w1 click by (simp add: constructor_def graphSetup_def)
  moreover have "chordAt 3 (Node 1) (pageTime p) (pageSampleRate p) (pageRandom p)
      (droneCalls ?ctx (Node 1) (?w0\<lparr>nodes := 3\<rparr>))"
    using chordAt_droneCalls [of "?w0\<lparr>nodes := 3\<rparr>" "Node 1" ?ctx]
    by (simp add: constructor_def)
  ultimately have first: "chordAt 3 (Node 1) (pageTime p) (pageSampleRate p) (pageRandom p)
      (drop 9 (calls ?w1))"
    by simp
  have start: "scheduled ?h PlayDrone 7500 ?w1"
    unfolding w1 click by (simp add: scheduled_def constructor_def)
  then have timer: "map_of (timers ?w1) ?h = Some (PlayDrone, 7500)"
    by (auto simp: scheduled_def split: option.splits dest: generatorOf_drone)
  have later: "map_of (timers (run evs ?w1)) ?h = Some (PlayDrone, 7500) \<and>
      (\<exists>w'. fire ?h (run evs ?w1) = Returned w' \<and>
         chordAt (nodes (run evs ?w1)) (Node 1) (currentTime (run evs ?w1)) (pageSampleRate p)
           (\<lambda>k. rng (run evs ?w1) (drawn (run evs ?w1) + k))
           (drop (length (calls (run evs ?w1))) (calls w')))"
    if "\<forall>e \<in> set evs. \<not> stopsMusic e" for evs
  proof -
    from start that have "scheduled ?h PlayDrone 7500 (run evs ?w1)"
      by (rule scheduled_run)
    then have live: "map_of (timers (run evs ?w1)) ?h = Some (PlayDrone, 7500)"
      by (auto simp: scheduled_def split: option.splits dest: generatorOf_drone)
    have "sameDevice ?w1 (run evs ?w1)"
      using device(1) by (intro sameDevice_run) simp
    with device have dev: "audioContext (eng (run evs ?w1)) = Some ?ctx"
      "musicGain (eng (run evs ?w1)) = Some (Node 1)"
      by (simp_all add: sameDevice_def)
    from fire_drone [OF live dev] obtain w'
      where "fire ?h (run evs ?w1) = Returned w'"
        and "calls w' = calls (run evs ?w1) @ droneCalls ?ctx (Node 1) (run evs ?w1)"
      by blast
    with chordAt_droneCalls [of "run evs ?w1" "Node 1" ?ctx] live show ?thesis
      by simp
  qed
  from init noop device(2) time first timer later show ?thesis
    unfolding Let_def by simp
qed

theorem drone_chords_witness:
  "pageAudio samplePage \<and>
   list_all (\<lambda>e. \<not> stopsMusic e) [Elapse (75 / 10), Fire 2, HoverCue] \<and>
   chordAt 3 (Node 1) 0 2 (\<lambda>k. 7 / 10)
     (drop 9 (calls (run [Initialize, StartMusic] (constructor samplePage)))) \<and>
   [(m, samples). SetBuffer m samples \<leftarrow>
      drop 9 (calls (run [Initialize, StartMusic] (constructor samplePage)))] =
     [(Node 9, replicate 16 (2 / 5))] \<and>
   (\<exists>w'. fire 1 (run [Elapse (75 / 10), Fire 2, HoverCue]
                   (run [Initialize, StartMusic] (constructor samplePage))) = Returned w' \<and>
      chordAt (nodes (run [Elapse (75 / 10), Fire 2, HoverCue]
                   (run [Initialize, StartMusic] (constructor samplePage)))) (Node 1)
        (currentTime (run [Elapse (75 / 10), Fire 2, HoverCue]
                   (run [Initialize, StartMusic] (constructor samplePage)))) 2
        (\<lambda>k. rng (run [Elapse (75 / 10), Fire 2, HoverCue]
                   (run [Initialize, StartMusic] (constructor samplePage)))
               (drawn (run [Elapse (75 / 10), Fire 2, HoverCue]
                   (run [Initialize, StartMusic] (constructor samplePage))) + k))
        (drop (length (calls (run [Elapse (75 / 10), Fire 2, HoverCue]
                   (run [Initialize, StartMusic] (constructor samplePage))))) (calls w')))"
proof -
  have page: "pageAudio samplePage" "pageHandles samplePage + 1 = 1" "pageTime samplePage = 0"
    "pageSampleRate samplePage = 2" "pageRandom samplePage = (\<lambda>k. 7 / 10)"
    by (simp_all add: samplePage_def)
  have evs: "\<forall>e \<in> set [Elapse (75 / 10), Fire 2, HoverCue]. \<not> stopsMusic e"
    by simp
  note chords = drone_chords [OF page(1), unfolded Let_def page]
  from chords have first: "chordAt 3 (Node 1) 0 2 (\<lambda>k. 7 / 10)
      (drop 9 (calls (run [Initialize, StartMusic] (constructor samplePage))))"
    by blast
  have "[0..<16] = [0, 1, 2, 3, 4, 5, 6, 7, 8, 9, 10, 11, 12, 13, 14, Suc 14]"
    by (simp add: upt_rec)
  then have "map (\<lambda>k. (7 / 10 :: real) * 2 - 1) [0..<16] = replicate 16 (2 / 5)"
    by (simp add: eval_nat_numeral)
  with first have buffer: "[(m, samples). SetBuffer m samples \<leftarrow>
      drop 9 (calls (run [Initialize, StartMusic] (constructor samplePage)))] =
     [(Node 9, replicate 16 (2 / 5))]"
    unfolding chordAt_def by simp
  from chords evs page(1) first buffer show ?thesis
    unfolding list_all_iff by blast
qed

section \<open>Every sound ends by itself\<close>

text \<open>
  C9. On an initialized engine each of the three synthesis routines returns without
  touching the engine's fields or the timer table, so the caller is left with no handle.
  \<^verbatim>\<open>playNote\<close> starts one oscillator and schedules its stop at onset + duration.
  \<^verbatim>\<open>playCreak\<close> does the same with a duration of 0.3 seconds. \<^verbatim>\<open>playFilteredNoise\<close>
  starts one buffer source and schedules no stop: it asks the device for a buffer of
  \<open>sampleRate * duration\<close> samples, the buffer it gets holds the integer part of that
  many (exactly that many when the product is a whole number), and playing them takes no
  longer than \<open>duration\<close> seconds.
\<close>

theorem sounds_end_by_themselves:
  assumes "audioContext (eng w) = Some ctx"
    and "masterGain (eng w) = Some master"
    and "musicGain (eng w) = Some music"
  shows "(\<exists>w'. playNote freq duration type volume destination w = Returned w' \<and>
            eng w' = eng w \<and> timers w' = timers w \<and>
            [n. Start n \<leftarrow> drop (length (calls w)) (calls w')] = [Node (nodes w)] \<and>
            [(n, t). Stop n t \<leftarrow> drop (length (calls w)) (calls w')] =
              [(Node (nodes w), currentTime w + duration)]) \<and>
         (\<exists>w'. playCreak w = Returned w' \<and>
            eng w' = eng w \<and> timers w' = timers w \<and>
            [n. Start n \<leftarrow> drop (length (calls w)) (calls w')] = [Node (nodes w)] \<and>
            [(n, t). Stop n t \<leftarrow> drop (length (calls w)) (calls w')] =
              [(Node (nodes w), currentTime w + 0.3)]) \<and>
         (\<exists>w' data. playFilteredNoise duration cutoff peak destination w = Returned w' \<and>
            eng w' = eng w \<and> timers w' = timers w \<and>
            [n. Start n \<leftarrow> drop (length (calls w)) (calls w')] = [Node (nodes w)] \<and>
            [(n, t). Stop n t \<leftarrow> drop (length (calls w)) (calls w')] = [] \<and>
            [(c, len, r). CreateBuffer c len r \<leftarrow> drop (length (calls w)) (calls w')] =
              [(1, sampleRate ctx * duration, sampleRate ctx)] \<and>
            [(n, d). SetBuffer n d \<leftarrow> drop (length (calls w)) (calls w')] =
              [(Node (nodes w), data)] \<and>
            length data = nat \<lfloor>sampleRate ctx * duration\<rfloor> \<and>
            (sampleRate ctx * duration = real k \<longrightarrow> length data = k) \<and>
            (0 < sampleRate ctx \<and> 0 \<le> duration \<longrightarrow>
               real (length data) / sampleRate ctx \<le> duration))"
proof (intro conjI)
  have routed: "orElse destination (masterGain (eng w)) =
      Some (case destination of None \<Rightarrow> master | Some d \<Rightarrow> d)"
    using assms(2) by (simp add: orElse_def split: option.splits)
  show "\<exists>w'. playNote freq duration type volume destination w = Returned w' \<and>
            eng w' = eng w \<and> timers w' = timers w \<and>
            [n. Start n \<leftarrow> drop (length (calls w)) (calls w')] = [Node (nodes w)] \<and>
            [(n, t). Stop n t \<leftarrow> drop (length (calls w)) (calls w')] =
              [(Node (nodes w), currentTime w + duration)]"
    unfolding playNote_routed [OF assms(1) routed] by (simp add: noteCalls_def)
  show "\<exists>w'. playCreak w = Returned w' \<and>
            eng w' = eng w \<and> timers w' = timers w \<and>
            [n. Start n \<leftarrow> drop (length (calls w)) (calls w')] = [Node (nodes w)] \<and>
            [(n, t). Stop n t \<leftarrow> drop (length (calls w)) (calls w')] =
              [(Node (nodes w), currentTime w + 0.3)]"
    unfolding playCreak_routed [OF assms(1,3)] by (simp add: creakCalls_def)
  let ?data = "fst (fillNoise 0 (sampleRate ctx * duration)
      (replicate (nat \<lfloor>sampleRate ctx * duration\<rfloor>) 0) w)"
  have len: "length ?data = nat \<lfloor>sampleRate ctx * duration\<rfloor>"
    by (simp add: fillNoise_length)
  have whole: "sampleRate ctx * duration = real k \<longrightarrow> length ?data = k"
    unfolding len by simp
  have short: "0 < sampleRate ctx \<and> 0 \<le> duration \<longrightarrow>
      real (length ?data) / sampleRate ctx \<le> duration"
  proof
    assume pos: "0 < sampleRate ctx \<and> 0 \<le> duration"
    then have "0 \<le> sampleRate ctx * duration" by simp
    then have "real (nat \<lfloor>sampleRate ctx * duration\<rfloor>) \<le> sampleRate ctx * duration"
      by simp
    with pos show "real (length ?data) / sampleRate ctx \<le> duration"
      unfolding len by (simp add: divide_le_eq mult.commute)
  qed
  have "playFilteredNoise duration cutoff peak destination w =
      Returned (w\<lparr>calls := calls w @ noiseCalls duration cutoff peak ctx w @
                   [Connect (Node (Suc (Suc (nodes w))))
                      (case destination of None \<Rightarrow> master | Some d \<Rightarrow> d),
                    Start (Node (nodes w))],
                nodes := Suc (Suc (Suc (nodes w))),
                drawn := drawn w + nat \<lceil>sampleRate ctx * duration\<rceil>\<rparr>)"
    by (rule playFilteredNoise_routed [OF assms(1) routed])
  with len whole short
  show "\<exists>w' data. playFilteredNoise duration cutoff peak destination w = Returned w' \<and>
            eng w' = eng w \<and> timers w' = timers w \<and>
            [n. Start n \<leftarrow> drop (length (calls w)) (calls w')] = [Node (nodes w)] \<and>
            [(n, t). Stop n t \<leftarrow> drop (length (calls w)) (calls w')] = [] \<and>
            [(c, len, r). CreateBuffer c len r \<leftarrow> drop (length (calls w)) (calls w')] =
              [(1, sampleRate ctx * duration, sampleRate ctx)] \<and>
            [(n, d). SetBuffer n d \<leftarrow> drop (length (calls w)) (calls w')] =
              [(Node (nodes w), data)] \<and>
            length data = nat \<lfloor>sampleRate ctx * duration\<rfloor> \<and>
            (sampleRate ctx * duration = real k \<longrightarrow> length data = k) \<and>
            (0 < sampleRate ctx \<and> 0 \<le> duration \<longrightarrow>
               real (length data) / sampleRate ctx \<le> duration)"
    by (simp add: noiseCalls_def)
qed

theorem sounds_end_by_themselves_witness:
  "audioContext (eng sampleWorld) = Some (AudioContext 2) \<and>
   masterGain (eng sampleWorld) = Some (Node 0) \<and>
   musicGain (eng sampleWorld) = Some (Node 1) \<and>
   sampleRate (AudioContext 2) * 4 = real 8 \<and>
   0 < sampleRate (AudioContext 2) \<and> (0::real) \<le> 4 \<and>
   (\<exists>w'. playNote 440 4 None None (Some (Node 1)) sampleWorld = Returned w' \<and>
      [(n, t). Stop n t \<leftarrow> drop (length (calls sampleWorld)) (calls w')] = [(Node 12, 4)]) \<and>
   (\<exists>w' data. playFilteredNoise 4 300 (5 / 100) (Some (Node 1)) sampleWorld = Returned w' \<and>
      [(n, t). Stop n t \<leftarrow> drop (length (calls sampleWorld)) (calls w')] = [] \<and>
      [(n, d). SetBuffer n d \<leftarrow> drop (length (calls sampleWorld)) (calls w')] =
        [(Node 12, data)] \<and>
      length data = 8 \<and> real (length data) / 2 \<le> 4)"
proof -
  have dev: "audioContext (eng sampleWorld) = Some (AudioContext 2)"
    "masterGain (eng sampleWorld) = Some (Node 0)"
    "musicGain (eng sampleWorld) = Some (Node 1)"
    by (simp_all add: sampleWorld_eng)
  have whole: "sampleRate (AudioContext 2) * 4 = real 8" "0 < sampleRate (AudioContext 2)"
    by simp_all
  note claim = sounds_end_by_themselves [OF dev, where freq = 440 and duration = 4
      and type = None and volume = None and destination = "Some (Node 1)"
      and cutoff = 300 and peak = "5 / 100" and k = 8]
  from claim have tone: "\<exists>w'. playNote 440 4 None None (Some (Node 1)) sampleWorld = Returned w' \<and>
      [(n, t). Stop n t \<leftarrow> drop (length (calls sampleWorld)) (calls w')] = [(Node 12, 4)]"
    by (auto simp add: sampleWorld_platform)
  from claim whole
  have "\<exists>w' data. playFilteredNoise 4 300 (5 / 100) (Some (Node 1)) sampleWorld = Returned w' \<and>
      [(n, t). Stop n t \<leftarrow> drop (length (calls sampleWorld)) (calls w')] = [] \<and>
      [(n, d). SetBuffer n d \<leftarrow> drop (length (calls sampleWorld)) (calls w')] =
        [(Node 12, data)] \<and>
      length data = 8 \<and> real (length data) / 2 \<le> 4"
    by (auto simp add: sampleWorld_platform)
  with dev whole tone show ?thesis
    by simp
qed

section \<open>The mix bus\<close>

text \<open>
  C8. The constructor sets the volumes to master 0.4, music 0.15 and sfx 0.3. Whatever
  volumes \<open>cfg\<close> the engine holds at the first \<^verbatim>\<open>initAudioContext\<close> on a page with
  audio, the first nine device calls create the master, music and sfx gains with those
  values and connect music and sfx to the master and the master to the output. In every
  state reached afterwards, by any events, a note played with peak gain \<open>peakGain\<close> on the
  music bus leaves the device with an output gain at its onset of
  \<open>peakGain * musicVolume * masterVolume\<close>, a note on the sfx bus with
  \<open>peakGain * sfxVolume * masterVolume\<close>, for all real values of the three factors; a
  note played without a destination goes to the master directly, with
  \<open>peakGain * masterVolume\<close>. Numbers are real numbers here, so the products are exact.
\<close>

theorem gain_stages_multiply:
  assumes "pageAudio p"
  shows "let w0 = (constructor p)\<lparr>eng := (eng (constructor p))\<lparr>config := cfg\<rparr>\<rparr>;
             w = run evs (run [Initialize] w0)
         in config (eng (constructor p)) =
              \<lparr>masterVolume = 0.4, musicVolume = 0.15, sfxVolume = 0.3\<rparr> \<and>
            take 9 (calls w) =
              [CreateGain (Node 0), SetGainValue (Node 0) (masterVolume cfg),
               Connect (Node 0) Destination,
               CreateGain (Node 1), SetGainValue (Node 1) (musicVolume cfg),
               Connect (Node 1) (Node 0),
               CreateGain (Node 2), SetGainValue (Node 2) (sfxVolume cfg),
               Connect (Node 2) (Node 0)] \<and>
            masterGain (eng w) = Some (Node 0) \<and>
            musicGain (eng w) = Some (Node 1) \<and>
            sfxGain (eng w) = Some (Node 2) \<and>
            (\<exists>w'. playNote freq duration type (Some peakGain) (musicGain (eng w)) w = Returned w' \<and>
               effectiveGain (calls w') (Node (nodes w)) =
                 peakGain * musicVolume cfg * masterVolume cfg) \<and>
            (\<exists>w'. playNote freq duration type (Some peakGain) (sfxGain (eng w)) w = Returned w' \<and>
               effectiveGain (calls w') (Node (nodes w)) =
                 peakGain * sfxVolume cfg * masterVolume cfg) \<and>
            (\<exists>w'. playNote freq duration type (Some peakGain) None w = Returned w' \<and>
               effectiveGain (calls w') (Node (nodes w)) = peakGain * masterVolume cfg)"
proof -
  let ?fresh = "(constructor p)\<lparr>eng := (eng (constructor p))\<lparr>config := cfg\<rparr>\<rparr>"
  let ?first = "run [Initialize] ?fresh"
  let ?now = "run evs ?first"
  have fresh: "audioContext (eng ?fresh) = None" "contextAvailable ?fresh"
    "\<not> isMusicPlaying (eng ?fresh)" "calls ?fresh = []" "nodes ?fresh = 0" "config (eng ?fresh) = cfg"
    using assms by (simp_all add: constructor_def)
  have defaults: "config (eng (constructor p)) =
      \<lparr>masterVolume = 0.4, musicVolume = 0.15, sfxVolume = 0.3\<rparr>"
    by (simp add: constructor_def)
  have "graphReady (config (eng ?fresh)) (world_of (initAudioContext ?fresh))"
    using fresh(1,2,4,5) by (rule graphReady_first_click)
  then have "graphReady cfg ?first"
    by (simp add: fresh(6))
  then have ready: "graphReady cfg ?now"
    by (rule graphReady_run)
  then have buses: "masterGain (eng ?now) = Some (Node 0)" "musicGain (eng ?now) = Some (Node 1)"
    "sfxGain (eng ?now) = Some (Node 2)"
    by (simp_all add: graphReady_def)
  have "logGrows ?first ?now"
    by (rule logGrows_run)
  then obtain cs where "calls ?now = calls ?first @ cs"
    by (auto simp: logGrows_def)
  moreover have "take 9 (calls ?first) =
      [CreateGain (Node 0), SetGainValue (Node 0) (masterVolume cfg),
       Connect (Node 0) Destination,
       CreateGain (Node 1), SetGainValue (Node 1) (musicVolume cfg),
       Connect (Node 1) (Node 0),
       CreateGain (Node 2), SetGainValue (Node 2) (sfxVolume cfg),
       Connect (Node 2) (Node 0)]" "9 \<le> length (calls ?first)"
    unfolding run.simps step.simps first_click [OF fresh(1,2,3)] world_of.simps
    by (simp_all add: graphSetup_def constructor_def)
  ultimately have nine: "take 9 (calls ?now) =
      [CreateGain (Node 0), SetGainValue (Node 0) (masterVolume cfg),
       Connect (Node 0) Destination,
       CreateGain (Node 1), SetGainValue (Node 1) (musicVolume cfg),
       Connect (Node 1) (Node 0),
       CreateGain (Node 2), SetGainValue (Node 2) (sfxVolume cfg),
       Connect (Node 2) (Node 0)]"
    by simp
  have music: "\<exists>w'. playNote freq duration type (Some peakGain) (Some (Node 1)) ?now = Returned w' \<and>
      effectiveGain (calls w') (Node (nodes ?now)) = peakGain * musicVolume cfg * masterVolume cfg"
    using note_gain [OF ready, of "Node 1" freq duration type "Some peakGain"]
    by (simp add: mult.assoc)
  have sfx: "\<exists>w'. playNote freq duration type (Some peakGain) (Some (Node 2)) ?now = Returned w' \<and>
      effectiveGain (calls w') (Node (nodes ?now)) = peakGain * sfxVolume cfg * masterVolume cfg"
    using note_gain [OF ready, of "Node 2" freq duration type "Some peakGain"]
    by (simp add: numeral_2_eq_2 mult.assoc)
  have direct: "\<exists>w'. playNote freq duration type (Some peakGain) None ?now = Returned w' \<and>
      effectiveGain (calls w') (Node (nodes ?now)) = peakGain * masterVolume cfg"
    unfolding playNote_fallback [OF buses(1)]
    using note_gain [OF ready, of "Node 0" freq duration type "Some peakGain"] by simp
  from defaults nine buses music sfx direct show ?thesis
    unfolding Let_def by simp
qed

theorem gain_stages_multiply_witness:
  "pageAudio samplePage \<and>
   (\<exists>w'. playNote 440 1 None (Some (1 / 2)) (Some (Node 1))
            (run [HoverCue, Fire 1, StopMusic, StartMusic]
               (run [Initialize] ((constructor samplePage)
                  \<lparr>eng := (eng (constructor samplePage))
                     \<lparr>config := \<lparr>masterVolume = 1 / 2, musicVolume = 1 / 4, sfxVolume = 1\<rparr>\<rparr>\<rparr>)))
          = Returned w' \<and>
      effectiveGain (calls w')
        (Node (nodes (run [HoverCue, Fire 1, StopMusic, StartMusic]
               (run [Initialize] ((constructor samplePage)
                  \<lparr>eng := (eng (constructor samplePage))
                     \<lparr>config := \<lparr>masterVolume = 1 / 2, musicVolume = 1 / 4, sfxVolume = 1\<rparr>\<rparr>\<rparr>)))))
        = 1 / 16)"
proof -
  have page: "pageAudio samplePage"
    by (simp add: samplePage_def)
  from gain_stages_multiply [OF page, unfolded Let_def,
      where cfg = "\<lparr>masterVolume = 1 / 2, musicVolume = 1 / 4, sfxVolume = 1\<rparr>"
        and evs = "[HoverCue, Fire 1, StopMusic, StartMusic]"
        and freq = 440 and duration = 1 and type = None and peakGain = "1 / 2"]
  have "\<exists>w'. playNote 440 1 None (Some (1 / 2)) (Some (Node 1))
            (run [HoverCue, Fire 1, StopMusic, StartMusic]
               (run [Initialize] ((constructor samplePage)
                  \<lparr>eng := (eng (constructor samplePage))
                     \<lparr>config := \<lparr>masterVolume = 1 / 2, musicVolume = 1 / 4, sfxVolume = 1\<rparr>\<rparr>\<rparr>)))
          = Returned w' \<and>
      effectiveGain (calls w')
        (Node (nodes (run [HoverCue, Fire 1, StopMusic, StartMusic]
               (run [Initialize] ((constructor samplePage)
                  \<lparr>eng := (eng (constructor samplePage))
                     \<lparr>config := \<lparr>masterVolume = 1 / 2, musicVolume = 1 / 4, sfxVolume = 1\<rparr>\<rparr>\<rparr>)))))
        = 1 / 2 * musicVolume \<lparr>masterVolume = 1 / 2, musicVolume = 1 / 4, sfxVolume = 1\<rparr>
            * masterVolume \<lparr>masterVolume = 1 / 2, musicVolume = 1 / 4, sfxVolume = 1\<rparr>"
    by (elim conjE) (simp only:)
  with page show ?thesis
    by simp
qed

end
